theory Spec2Isabelle
  imports Complex_Main
begin

section \<open>Python values: errors and floats\<close>

text \<open>
  Every raise of the Python source is a value of \<open>py_error\<close>; a function that may raise
  returns \<open>py_error + 'a\<close>. The argument of \<open>NameError\<close> is the unbound name.
\<close>

datatype py_error =
    NameError string
  | TypeError
  | IndexError
  | ValueError
  | KeyError
  | AttributeError

text \<open>
  A numpy float as far as the code distinguishes it: not-a-number, the fill value
  \<open>-inf\<close> that a masked array puts under its mask, or a number. Numbers are exact
  reals: rounding of the float operations is not modelled.
\<close>

datatype fl = NaN | NegInf | Fin real

text \<open>\<open>x < t\<close> of numpy for a float \<open>x\<close> and a finite \<open>t\<close>: false on NaN.\<close>

fun fl_less :: "fl \<Rightarrow> real \<Rightarrow> bool" where
  "fl_less NaN t = False"
| "fl_less NegInf t = True"
| "fl_less (Fin v) t = (v < t)"

text \<open>Float subtraction: NaN propagates (\<open>duration = withdrawal - onset\<close>).\<close>

fun fl_sub :: "fl \<Rightarrow> fl \<Rightarrow> fl" where
  "fl_sub (Fin a) (Fin b) = Fin (a - b)"
| "fl_sub NegInf (Fin b) = NegInf"
| "fl_sub a b = NaN"

section \<open>Regional reducer: region boxes (yim\_etal\_2014\_precip.py, yim\_etal\_2014\_vorticity.py)\<close>

text \<open>
  The region table of yim\_etal\_2014\_precip.py: \<open>[[lata, latb], [lona, lonb]]\<close> by key.
\<close>

definition regions :: "string \<Rightarrow> ((real \<times> real) \<times> (real \<times> real)) option" where
  "regions k =
     (if k = ''IN'' then Some ((10, 30), (70, 105))
      else if k = ''WNP'' then Some ((25 / 2, 45 / 2), (110, 150))
      else if k = ''EA'' then Some ((45 / 2, 45), (110, 135))
      else if k = ''NAM'' then Some ((15 / 2, 45 / 2), (250, 280))
      else if k = ''NAF'' then Some ((5, 15), (330, 30))
      else if k = ''SAM'' then Some ((-25, -5), (290, 320))
      else if k = ''SAF'' then Some ((-25, - (15 / 2)), (25, 70))
      else if k = ''AUS'' then Some ((-20, -5), (110, 150))
      else None)"

text \<open>
  yim\_precip, lines 47-51: the grid longitudes kept for the bounds \<open>lona\<close>, \<open>lonb\<close>;
  a list comprehension over \<open>p.lon\<close>, so order and repetitions are those of the grid.
\<close>

definition yim_precip_lons :: "real \<Rightarrow> real \<Rightarrow> real list \<Rightarrow> real list" where
  "yim_precip_lons lona lonb lon =
     (if lonb > lona then filter (\<lambda>x. x \<ge> lona \<and> x \<le> lonb) lon
      else filter (\<lambda>x. x \<ge> lona \<or> x \<le> lonb) lon)"

text \<open>yim\_precip, line 52.\<close>

definition yim_precip_lats :: "real \<Rightarrow> real \<Rightarrow> real list \<Rightarrow> real list" where
  "yim_precip_lats lata latb lat = filter (\<lambda>x. x \<ge> lata \<and> x \<le> latb) lat"

text \<open>
  yim\_precip, lines 39-45: look the region up (a missing key raises KeyError) and shift
  the bounds by 360 when the grid's smallest longitude is below -10: both bounds, but
  only \<open>lona\<close> for the region NAF. \<open>p.lon.min()\<close> of an empty axis raises ValueError.
  The source compares the key with \<open>is not\<close>; it is read as inequality of the strings.
\<close>

definition yim_precip_bounds ::
  "string \<Rightarrow> real list \<Rightarrow> py_error + ((real \<times> real) \<times> (real \<times> real))" where
  "yim_precip_bounds region lon =
     (case regions region of
        None \<Rightarrow> Inl KeyError
      | Some ((lata, latb), (lona, lonb)) \<Rightarrow>
          if lon = [] then Inl ValueError
          else if Min (set lon) < -10 then
            (if region \<noteq> ''NAF'' then Inr ((lata, latb), (lona - 360, lonb - 360))
             else Inr ((lata, latb), (lona - 360, lonb)))
          else Inr ((lata, latb), (lona, lonb)))"

text \<open>yim\_precip, lines 39-52: the latitudes and longitudes of the grid kept for a region.\<close>

definition yim_precip_select ::
  "string \<Rightarrow> real list \<Rightarrow> real list \<Rightarrow> py_error + (real list \<times> real list)" where
  "yim_precip_select region lat lon =
     (case yim_precip_bounds region lon of
        Inl e \<Rightarrow> Inl e
      | Inr ((lata, latb), (lona, lonb)) \<Rightarrow>
          Inr (yim_precip_lats lata latb lat, yim_precip_lons lona lonb lon))"

text \<open>
  The region table of yim\_etal\_2014\_vorticity.py: two boxes by key, the second box of
  NAFSM being \<open>[[None,None],[None,None]]\<close>.
\<close>

definition vort_regions ::
  "string \<Rightarrow> (((real \<times> real) \<times> (real \<times> real)) \<times> ((real \<times> real) \<times> (real \<times> real)) option) option" where
  "vort_regions k =
     (if k = ''ISM'' then Some (((5, 15), (40, 80)), Some ((25, 35), (70, 90)))
      else if k = ''WNPSM'' then Some (((5, 15), (100, 130)), Some ((20, 35), (110, 140)))
      else if k = ''NASM'' then Some (((5, 15), (230, 260)), Some ((20, 30), (250, 280)))
      else if k = ''NAFSM'' then Some (((0, 15), (300, 350)), None)
      else if k = ''SASM'' then Some (((-20, -5), (290, 320)), Some ((-35, -20), (290, 320)))
      else if k = ''SAFSM'' then Some (((-15, -5), (20, 50)), Some ((-30, -20), (30, 55)))
      else if k = ''AUSSM'' then Some (((-15, 0), (90, 130)), Some ((-30, -20), (100, 140)))
      else None)"

text \<open>
  yim\_vort, lines 55-59: look the region up and, when the grid's smallest longitude is
  below -10, shift all four longitude bounds by 360; for NAFSM that subtracts from
  \<open>None\<close>, a TypeError. (The notice \<open>check\<close> printed on that branch is not part of
  the value.)
\<close>

definition yim_vort_bounds ::
  "string \<Rightarrow> real list \<Rightarrow>
     py_error + (((real \<times> real) \<times> (real \<times> real)) \<times> ((real \<times> real) \<times> (real \<times> real)) option)" where
  "yim_vort_bounds region lon =
     (case vort_regions region of
        None \<Rightarrow> Inl KeyError
      | Some (((lat1a, lat1b), (lon1a, lon1b)), box2) \<Rightarrow>
          if lon = [] then Inl ValueError
          else if Min (set lon) < -10 then
            (case box2 of
               None \<Rightarrow> Inl TypeError
             | Some ((lat2a, lat2b), (lon2a, lon2b)) \<Rightarrow>
                 Inr (((lat1a, lat1b), (lon1a - 360, lon1b - 360)),
                      Some ((lat2a, lat2b), (lon2a - 360, lon2b - 360))))
          else Inr (((lat1a, lat1b), (lon1a, lon1b)), box2))"

text \<open>
  yim\_vort, lines 62 and 66: this module has no wrap branch, both boxes are selected
  with the conjunction.
\<close>

definition yim_vort_lons :: "real \<Rightarrow> real \<Rightarrow> real list \<Rightarrow> real list" where
  "yim_vort_lons lona lonb lon = filter (\<lambda>x. x \<ge> lona \<and> x \<le> lonb) lon"

text \<open>
  yim\_vort, lines 55-67: the grid points of the first box, and those of the second box
  unless the region is NAFSM. A comparison of a longitude with \<open>None\<close> is a TypeError.
\<close>

definition yim_vort_select ::
  "string \<Rightarrow> real list \<Rightarrow> real list \<Rightarrow>
     py_error + ((real list \<times> real list) \<times> (real list \<times> real list) option)" where
  "yim_vort_select region lat lon =
     (case yim_vort_bounds region lon of
        Inl e \<Rightarrow> Inl e
      | Inr (((lat1a, lat1b), (lon1a, lon1b)), box2) \<Rightarrow>
          let lons1 = yim_vort_lons lon1a lon1b lon;
              lats1 = filter (\<lambda>y. y \<ge> lat1a \<and> y \<le> lat1b) lat
          in if region \<noteq> ''NAFSM'' then
               (case box2 of
                  None \<Rightarrow> Inl TypeError
                | Some ((lat2a, lat2b), (lon2a, lon2b)) \<Rightarrow>
                    Inr ((lats1, lons1),
                         Some (filter (\<lambda>y. y \<ge> lat2a \<and> y \<le> lat2b) lat,
                               yim_vort_lons lon2a lon2b lon)))
             else Inr ((lats1, lons1), None))"

section \<open>Regional reducer: choice of the weights (wang\_fan\_1999.py 58-71, yim\_etal\_2014\_precip.py 55-68)\<close>

text \<open>
  \<open>np.rint\<close>: the nearest integer, a tie going to the even one.
\<close>

definition rint :: "real \<Rightarrow> int" where
  "rint x =
     (let f = \<lfloor>x\<rfloor>; d = x - of_int f
      in if d < 1 / 2 then f
         else if d > 1 / 2 then f + 1
         else if even f then f else f + 1)"

text \<open>\<open>np.round(x, 2)\<close>: scale by 100, round to the nearest integer, scale back.\<close>

definition np_round2 :: "real \<Rightarrow> real" where
  "np_round2 x = of_int (rint (x * 100)) / 100"

text \<open>
  \<open>(np.round(a - b, 2) == 0.).all()\<close> for two coordinate arrays of the same length
  (the caller has compared the lengths).
\<close>

definition coords_same :: "real list \<Rightarrow> real list \<Rightarrow> bool" where
  "coords_same a b = list_all (\<lambda>(x, y). np_round2 (x - y) = 0) (zip a b)"

text \<open>
  A cell-area grid as far as these lines read it: its coordinate axes by dimension name,
  in order (every dimension is taken to carry its coordinate). The weights a reduction
  ends up with are the cell areas or the cosine of the latitude.
\<close>

type_synonym areagrid = "(string \<times> real list) list"

datatype weighting = CellArea | CosLat

text \<open>
  \<open>areacell.rename({latdim:'lat', londim:'lon'})\<close>. The dict maps \<open>londim\<close> to \<open>lon\<close>
  and \<open>latdim\<close> to \<open>lat\<close> (a single entry, to \<open>lon\<close>, when the two names are equal).
  xarray raises ValueError when a key names nothing of the grid, and when two axes end up
  with one name.
\<close>

definition rename_lat_lon :: "string \<Rightarrow> string \<Rightarrow> areagrid \<Rightarrow> py_error + areagrid" where
  "rename_lat_lon latdim londim g =
     (let new = (\<lambda>n. if n = londim then ''lon'' else if n = latdim then ''lat'' else n)
      in if latdim \<notin> set (map fst g) \<or> londim \<notin> set (map fst g) then Inl ValueError
         else if \<not> distinct (map (\<lambda>(n, c). new n) g) then Inl ValueError
         else Inr (map (\<lambda>(n, c). (new n, c)) g))"

text \<open>
  The notice of the fallback; \<open>who\<close> is \<open>u\<close> in wang\_fan, yim\_vort and scsm\_onset and
  \<open>p\<close> in yim\_precip.
\<close>

definition mismatch_notice :: "string \<Rightarrow> string" where
  "mismatch_notice who =
     ''Warning, cell area dimensions do not match those of '' @ who @
     '', defaulting to using cosine weighted averaging''"

text \<open>
  wang\_fan lines 58-71 (the same lines are yim\_precip 55-68, yim\_vort 70-87,
  scsm\_onset 51-62): the weights used for the field with coordinates \<open>lat\<close>, \<open>lon\<close>,
  and the notices printed on the way. The grid is renamed first, which may raise;
  \<open>areacell.lat\<close> is an AttributeError when the renamed grid has no \<open>lat\<close>; the
  longitudes are read only when the latitude lengths agree (\<open>and\<close> evaluates its second
  operand only then); the coordinates are compared only when both lengths agree.
\<close>

definition choose_weights ::
  "areagrid option \<Rightarrow> string \<Rightarrow> string \<Rightarrow> string \<Rightarrow> real list \<Rightarrow> real list
     \<Rightarrow> py_error + (weighting \<times> string list)" where
  "choose_weights areacell who latdim londim lat lon =
     (case areacell of
        None \<Rightarrow> Inr (CosLat, [])
      | Some g \<Rightarrow>
         (case rename_lat_lon latdim londim g of
            Inl e \<Rightarrow> Inl e
          | Inr g' \<Rightarrow>
             (case map_of g' ''lat'' of
                None \<Rightarrow> Inl AttributeError
              | Some alat \<Rightarrow>
                  if length alat \<noteq> length lat then Inr (CosLat, [mismatch_notice who])
                  else
                   (case map_of g' ''lon'' of
                      None \<Rightarrow> Inl AttributeError
                    | Some alon \<Rightarrow>
                        if length alon \<noteq> length lon then Inr (CosLat, [mismatch_notice who])
                        else
                          let latsame = coords_same alat lat;
                              lonsame = coords_same alon lon
                          in if latsame \<and> lonsame then Inr (CellArea, [])
                             else Inr (CosLat, [mismatch_notice who])))))"

section \<open>Li and Zhang 2009: condition A of the onset (li\_zhang\_2009.py)\<close>

text \<open>
  \<open>cond.isel(time=range(i, i+p)).sum('time') == p\<close> for one grid cell: the number of
  true entries among \<open>cond[i], ..., cond[i+p-1]\<close> is \<open>p\<close>.
\<close>

definition window_sum :: "bool list \<Rightarrow> nat \<Rightarrow> nat \<Rightarrow> nat" where
  "window_sum cond i p = length (filter id (take p (drop i cond)))"

text \<open>\<open>min\<close> of xarray over floats: NaN entries are skipped; all NaN gives NaN.\<close>

definition nanmin :: "fl list \<Rightarrow> fl" where
  "nanmin xs =
     (let vs = concat (map (\<lambda>x. case x of Fin v \<Rightarrow> [v] | _ \<Rightarrow> []) xs)
      in if vs = [] then NaN else Fin (Min (set vs)))"

text \<open>
  li\_zhang, lines 98-103, for one grid cell with the boolean series \<open>cond\<close> of length
  \<open>N\<close>. The array \<open>a\<close> starts as zeros; the loop fills \<open>a[i]\<close> for \<open>i < N - p\<close> with
  \<open>i\<close> or NaN; then \<open>a\<close> is cut to the indices \<open>1, ..., N-p-1\<close> and its minimum taken.
  A negative \<open>p\<close> makes the loop write \<open>a[N]\<close>: IndexError. The minimum over an empty
  selection raises ValueError.
\<close>

definition cond_a_array :: "nat \<Rightarrow> bool list \<Rightarrow> fl list" where
  "cond_a_array p cond =
     map (\<lambda>i. if i + p < length cond
               then (if window_sum cond i p = p then Fin (real i) else NaN)
               else Fin 0)
         [0..<length cond]"

definition cond_a_onset :: "int \<Rightarrow> bool list \<Rightarrow> py_error + fl" where
  "cond_a_onset p cond =
     (if p < 0 then Inl IndexError
      else
        let a = cond_a_array (nat p) cond;
            sel = map (\<lambda>i. a ! i) [1..<length cond - nat p]
        in if sel = [] then Inl ValueError else Inr (nanmin sel))"

text \<open>li\_zhang, line 96 with 98-103: \<open>cond_a_onset = beta_onset > beta_julaug/2.\<close>\<close>

definition li_zhang_cond_a :: "int \<Rightarrow> real list \<Rightarrow> real \<Rightarrow> py_error + fl" where
  "li_zhang_cond_a p beta_onset beta_julaug =
     cond_a_onset p (map (\<lambda>b. b > beta_julaug / 2) beta_onset)"

text \<open>
  The candidates of the minimum: an index \<open>i\<close> of the cut array (\<open>1 \<le> i < N - p\<close>)
  whose window of \<open>p\<close> steps is true throughout.
\<close>

definition cond_a_candidate :: "nat \<Rightarrow> bool list \<Rightarrow> nat \<Rightarrow> bool" where
  "cond_a_candidate p cond i \<longleftrightarrow>
     1 \<le> i \<and> i + p < length cond \<and> (\<forall>j<p. cond ! (i + j))"

section \<open>Harmonic smoother of one series (kitoh\_uchiyama\_2006.py 23-41, wang\_linho\_2002.py 25-38, li\_zhang\_2009.py 40-56)\<close>

text \<open>
  The transform of \<open>np.fft.fft\<close> and \<open>np.fft.ifft\<close> along one axis, over exact complex
  numbers: \<open>A k = (\<Sum>m<n. a m * exp (- 2 pi i m k / n))\<close>, and the inverse with the opposite
  sign and the factor \<open>1 / n\<close>. \<open>twiddle L t\<close> is \<open>exp (2 pi i t / L)\<close>.
\<close>

definition twiddle :: "nat \<Rightarrow> int \<Rightarrow> complex" where
  "twiddle L t = cis (2 * pi * real_of_int t / real L)"

definition fft :: "complex list \<Rightarrow> complex list" where
  "fft xs = map (\<lambda>k. \<Sum>n<length xs. xs ! n * twiddle (length xs) (- (int k * int n)))
                [0..<length xs]"

definition ifft :: "complex list \<Rightarrow> complex list" where
  "ifft ys = map (\<lambda>n. (\<Sum>k<length ys. ys ! k * twiddle (length ys) (int k * int n))
                        / of_nat (length ys))
                 [0..<length ys]"

text \<open>
  \<open>mean\<close> is the arithmetic mean of a series of numbers (\<open>p_pentad.mean(pentaddim)\<close> on
  a series without NaN; \<open>nanmean\<close> below is the general case).
  \<open>truncate_harmonics\<close> is the slice assignment \<open>p_fft[12:-12] = 0\<close> on an axis of length
  \<open>L\<close>: a Python slice \<open>12:-12\<close> holds the indices \<open>k\<close> with \<open>12 \<le> k < L - 12\<close>, none
  when \<open>L \<le> 24\<close>.
\<close>

definition mean :: "real list \<Rightarrow> real" where
  "mean xs = sum_list xs / real (length xs)"

definition truncate_harmonics :: "complex list \<Rightarrow> complex list" where
  "truncate_harmonics X =
     map (\<lambda>k. if 12 \<le> k \<and> k + 12 < length X then 0 else X ! k) [0..<length X]"

text \<open>
  The smoother on a series of numbers, statement by statement: subtract the mean,
  transform, zero the slice, transform back, take the real part, add the mean.
\<close>

definition centred :: "real list \<Rightarrow> complex list" where
  "centred xs = map (\<lambda>x. complex_of_real (x - mean xs)) xs"

definition smooth_series :: "real list \<Rightarrow> real list" where
  "smooth_series xs =
     (let p_mean = mean xs;
          p_fft = truncate_harmonics (fft (centred xs));
          p_smooth = ifft p_fft
      in map (\<lambda>c. Re c + p_mean) p_smooth)"

text \<open>
  A float of an input array is a number or NaN (a missing value): \<open>real option\<close>, with
  \<open>None\<close> for NaN. Infinite inputs are not modelled. A complex float counts as NaN as
  soon as one of its parts is. \<open>present\<close> are the numbers of a series.
\<close>

definition present :: "real option list \<Rightarrow> real list" where
  "present xs = map the (filter (\<lambda>x. x \<noteq> None) xs)"

text \<open>
  \<open>mean\<close> of xarray over floats: NaN entries are skipped, and a series with no number
  has the mean NaN.
\<close>

definition nanmean :: "real option list \<Rightarrow> real option" where
  "nanmean xs = (if present xs = [] then None else Some (mean (present xs)))"

text \<open>
  \<open>np.fft.fft\<close> and \<open>np.fft.ifft\<close> on floats: every coefficient is a sum over all the
  entries, so one NaN entry makes every coefficient NaN.
\<close>

definition nan_fft :: "complex option list \<Rightarrow> complex option list" where
  "nan_fft xs =
     (if None \<in> set xs then replicate (length xs) None else map Some (fft (map the xs)))"

definition nan_ifft :: "complex option list \<Rightarrow> complex option list" where
  "nan_ifft ys =
     (if None \<in> set ys then replicate (length ys) None else map Some (ifft (map the ys)))"

text \<open>The slice assignment \<open>p_fft[12:-12] = 0\<close> on floats: a zeroed NaN is zero.\<close>

definition nan_truncate :: "complex option list \<Rightarrow> complex option list" where
  "nan_truncate X =
     map (\<lambda>k. if 12 \<le> k \<and> k + 12 < length X then Some 0 else X ! k) [0..<length X]"

text \<open>
  The smoother on the series of one cell as the arrays hold it (lines 23-24, 28-38 and
  40-41 of kitoh\_uchiyama\_2006.py): the mean skips NaN; the difference, the sum and the
  real part are NaN where an operand is.
\<close>

definition smooth_lane :: "real option list \<Rightarrow> real option list" where
  "smooth_lane xs =
     (let p_mean = nanmean xs;
          p_pentad = map (\<lambda>x. case (x, p_mean) of
                               (Some v, Some m) \<Rightarrow> Some (complex_of_real (v - m))
                             | _ \<Rightarrow> None) xs;
          p_fft = nan_truncate (nan_fft p_pentad);
          p_smooth = nan_ifft p_fft
      in map (\<lambda>c. case (c, p_mean) of
                    (Some z, Some m) \<Rightarrow> Some (Re z + m)
                  | _ \<Rightarrow> None) p_smooth)"

section \<open>Three-dimensional arrays and the smoother along an axis\<close>

text \<open>
  The \<open>values\<close> of a three-dimensional DataArray: its shape and its elements by index;
  a DataArray is the array with the names of its three dimensions, in axis order.
\<close>

record 'a array3 =
  n0 :: nat
  n1 :: nat
  n2 :: nat
  elem :: "nat \<Rightarrow> nat \<Rightarrow> nat \<Rightarrow> 'a"

record dataarray =
  dims :: "string \<times> string \<times> string"
  vals :: "real option array3"

text \<open>
  \<open>get_axis_num\<close> of xarray: the position of a dimension name; an unknown name raises
  \<open>ValueError\<close> (written \<open>None\<close> here, turned into the error by the callers).
\<close>

definition get_axis_num :: "string \<times> string \<times> string \<Rightarrow> string \<Rightarrow> nat option" where
  "get_axis_num ds name =
     (case ds of (d0, d1, d2) \<Rightarrow>
        if name = d0 then Some 0 else if name = d1 then Some 1
        else if name = d2 then Some 2 else None)"

definition axis_len :: "'a array3 \<Rightarrow> nat \<Rightarrow> nat" where
  "axis_len a ax = (if ax = 0 then n0 a else if ax = 1 then n1 a else n2 a)"

text \<open>
  \<open>lane ax a i j k\<close> is the one-dimensional series of \<open>a\<close> along axis \<open>ax\<close> through the
  element \<open>(i, j, k)\<close>; \<open>pos ax i j k\<close> is the place of that element on it. \<open>along ax f\<close>
  applies a length-preserving function of a series to every lane of axis \<open>ax\<close>, as
  \<open>np.fft.fft(values, axis=axisno)\<close> and the reductions \<open>mean(pentaddim)\<close>,
  \<open>min(pentaddim)\<close>, \<open>max(pentaddim)\<close> followed by broadcasting do.
\<close>

definition lane :: "nat \<Rightarrow> 'a array3 \<Rightarrow> nat \<Rightarrow> nat \<Rightarrow> nat \<Rightarrow> 'a list" where
  "lane ax a i j k =
     (if ax = 0 then map (\<lambda>t. elem a t j k) [0..<n0 a]
      else if ax = 1 then map (\<lambda>t. elem a i t k) [0..<n1 a]
      else map (\<lambda>t. elem a i j t) [0..<n2 a])"

definition pos :: "nat \<Rightarrow> nat \<Rightarrow> nat \<Rightarrow> nat \<Rightarrow> nat" where
  "pos ax i j k = (if ax = 0 then i else if ax = 1 then j else k)"

definition along :: "nat \<Rightarrow> ('a list \<Rightarrow> 'b list) \<Rightarrow> 'a array3 \<Rightarrow> 'b array3" where
  "along ax f a =
     \<lparr>n0 = n0 a, n1 = n1 a, n2 = n2 a,
      elem = (\<lambda>i j k. f (lane ax a i j k) ! pos ax i j k)\<rparr>"

text \<open>
  The smoothing lines shared by the three functions, on the array: the branch
  \<open>if axisno==0 ... elif axisno==1 ... elif axisno==2\<close> zeroes the same slice on the
  axis in question.
\<close>

definition p_smooth :: "real option array3 \<Rightarrow> nat \<Rightarrow> real option array3" where
  "p_smooth p axisno = along axisno smooth_lane p"

text \<open>
  \<open>smooth_data\<close> of li\_zhang\_2009.py. An unknown \<open>timedim\<close> raises \<open>ValueError\<close>
  (xarray), and so does a time axis of length 0 (\<open>np.fft.fft\<close> refuses 0 data points).
\<close>

definition smooth_data :: "dataarray \<Rightarrow> string \<Rightarrow> py_error + dataarray" where
  "smooth_data var_in timedim =
     (case get_axis_num (dims var_in) timedim of
        None \<Rightarrow> Inl ValueError
      | Some axisno \<Rightarrow>
          if axis_len (vals var_in) axisno = 0 then Inl ValueError
          else Inr (var_in\<lparr>vals := p_smooth (vals var_in) axisno\<rparr>))"

section \<open>Season by threshold (kitoh\_uchiyama\_2006.py 43-64, wang\_linho\_2002.py 40-61)\<close>

text \<open>
  Line 43 of kitoh\_uchiyama\_2006.py on one series: the normalised index
  \<open>(p - min) / (max - min)\<close>. \<open>min\<close> and \<open>max\<close> of xarray skip NaN; a NaN entry stays
  NaN. A constant series gives \<open>0 / 0\<close>, which is NaN in numpy.
\<close>

definition npi_series :: "real option list \<Rightarrow> fl list" where
  "npi_series xs =
     map (\<lambda>x. case x of
                None \<Rightarrow> NaN
              | Some v \<Rightarrow>
                  let mn = Min (set (present xs)); mx = Max (set (present xs))
                  in if mx - mn = 0 then NaN else Fin ((v - mn) / (mx - mn))) xs"

text \<open>
  \<open>np.ma.masked_less(x, T)\<close>: each value with its mask bit, set where \<open>x < T\<close>. The
  comparison is false on NaN, so a NaN stays unmasked, and so does a value equal to \<open>T\<close>.
\<close>

definition masked_less :: "fl list \<Rightarrow> real \<Rightarrow> (fl \<times> bool) list" where
  "masked_less xs t = map (\<lambda>x. (x, fl_less x t)) xs"

text \<open>
  \<open>np.ma.notmasked_edges(m, axis=0)\<close> on one lane of axis 0: the first and the last
  unmasked index, nothing for a lane that is masked throughout (numpy takes the minimum
  and the maximum of the masked index array and compresses the result).
\<close>

definition notmasked_edges :: "(fl \<times> bool) list \<Rightarrow> (nat \<times> nat) option" where
  "notmasked_edges m =
     (case filter (\<lambda>i. \<not> snd (m ! i)) [0..<length m] of
        [] \<Rightarrow> None
      | i # is \<Rightarrow> Some (i, last (i # is)))"

text \<open>
  \<open>argmax\<close> of numpy on floats: the loop keeps the first index whose value is not
  \<open>\<le>\<close> the running maximum, and stops at the first NaN. \<open>fl_le\<close> is the float
  comparison \<open>\<le>\<close>, false when either side is NaN.
\<close>

fun fl_le :: "fl \<Rightarrow> fl \<Rightarrow> bool" where
  "fl_le NaN y = False"
| "fl_le x NaN = False"
| "fl_le NegInf y = True"
| "fl_le (Fin a) NegInf = False"
| "fl_le (Fin a) (Fin b) = (a \<le> b)"

fun argmax_from :: "nat \<Rightarrow> fl \<Rightarrow> nat \<Rightarrow> fl list \<Rightarrow> nat" where
  "argmax_from best mp i [] = best"
| "argmax_from best mp i (x # xs) =
     (if mp = NaN then best
      else if \<not> fl_le x mp then argmax_from i x (Suc i) xs
      else argmax_from best mp (Suc i) xs)"

definition argmax :: "fl list \<Rightarrow> nat" where
  "argmax xs = (case xs of [] \<Rightarrow> 0 | x # r \<Rightarrow> argmax_from 0 x 1 r)"

text \<open>
  \<open>MaskedArray.argmax\<close> fills the masked places with \<open>-inf\<close> (the
  \<open>maximum_fill_value\<close> of a float array) and takes the plain \<open>argmax\<close>.
\<close>

definition filled :: "(fl \<times> bool) list \<Rightarrow> fl list" where
  "filled m = map (\<lambda>(x, msk). if msk then NegInf else x) m"

definition ma_argmax :: "(fl \<times> bool) list \<Rightarrow> nat" where
  "ma_argmax m = argmax (filled m)"

text \<open>
  The four returned fields, each indexed by the positions on axes 1 and 2 of the input
  values.
\<close>

record season =
  onset_pentad :: "nat \<Rightarrow> nat \<Rightarrow> fl"
  withdrawal_pentad :: "nat \<Rightarrow> nat \<Rightarrow> fl"
  peak_pentad :: "nat \<Rightarrow> nat \<Rightarrow> fl"
  duration :: "nat \<Rightarrow> nat \<Rightarrow> fl"

text \<open>
  \<open>len(x[latdim])\<close>: the size of the named dimension; \<open>KeyError\<close> (here \<open>None\<close>) for a
  name that is not a dimension.
\<close>

definition dim_len :: "string \<times> string \<times> string \<Rightarrow> 'a array3 \<Rightarrow> string \<Rightarrow> nat option" where
  "dim_len ds a name = map_option (axis_len a) (get_axis_num ds name)"

text \<open>
  Per position \<open>(j, k)\<close> of axes 1 and 2: the loop of lines 53-55 writes
  \<open>first + 1\<close> and \<open>last + 1\<close> where \<open>notmasked_edges\<close> found an unmasked entry along
  axis 0, and the arrays keep their initial NaN elsewhere; the peak is
  \<open>argmax(axis=0) + 1.\<close>, replaced by NaN where it equals 1 (\<open>where(peak_pentad!=1.)\<close>).
\<close>

definition cell_onset :: "real \<Rightarrow> fl array3 \<Rightarrow> nat \<Rightarrow> nat \<Rightarrow> fl" where
  "cell_onset T x j k =
     (case notmasked_edges (masked_less (lane 0 x 0 j k) T) of
        None \<Rightarrow> NaN | Some (fst_i, lst_i) \<Rightarrow> Fin (real fst_i + 1))"

definition cell_withdrawal :: "real \<Rightarrow> fl array3 \<Rightarrow> nat \<Rightarrow> nat \<Rightarrow> fl" where
  "cell_withdrawal T x j k =
     (case notmasked_edges (masked_less (lane 0 x 0 j k) T) of
        None \<Rightarrow> NaN | Some (fst_i, lst_i) \<Rightarrow> Fin (real lst_i + 1))"

definition cell_peak :: "real \<Rightarrow> fl array3 \<Rightarrow> nat \<Rightarrow> nat \<Rightarrow> fl" where
  "cell_peak T x j k =
     (let peak = real (ma_argmax (masked_less (lane 0 x 0 j k) T)) + 1
      in if peak \<noteq> 1 then Fin peak else NaN)"

text \<open>
  Lines 45-64 of kitoh\_uchiyama\_2006.py (42-61 of wang\_linho\_2002.py) on the array
  \<open>x\<close> that is masked, with threshold \<open>T\<close>. The raises: an axis 0 of length 0 (numpy
  refuses the reduction of an empty axis); a name that is no dimension; the assignment
  \<open>onset[j, k] = ...\<close> outside the \<open>len(x[latdim])\<close> by \<open>len(x[londim])\<close> array; and
  \<open>xr.DataArray\<close> given \<open>argmax(axis=0)\<close>, of shape \<open>(n1, n2)\<close>, with coordinates of
  other lengths.
\<close>

definition season_edges ::
  "real \<Rightarrow> string \<times> string \<times> string \<Rightarrow> fl array3 \<Rightarrow> string \<Rightarrow> string \<Rightarrow> py_error + season" where
  "season_edges T ds x latdim londim =
     (if n0 x = 0 then Inl ValueError
      else
        case dim_len ds x latdim of
          None \<Rightarrow> Inl KeyError
        | Some nlat \<Rightarrow>
           (case dim_len ds x londim of
              None \<Rightarrow> Inl KeyError
            | Some nlon \<Rightarrow>
                if list_ex (\<lambda>j. list_ex (\<lambda>k.
                       notmasked_edges (masked_less (lane 0 x 0 j k) T) \<noteq> None
                       \<and> (nlat \<le> j \<or> nlon \<le> k)) [0..<n2 x]) [0..<n1 x]
                then Inl IndexError
                else if n1 x \<noteq> nlat \<or> n2 x \<noteq> nlon then Inl ValueError
                else Inr \<lparr>onset_pentad = cell_onset T x,
                          withdrawal_pentad = cell_withdrawal T x,
                          peak_pentad = cell_peak T x,
                          duration = (\<lambda>j k. fl_sub (cell_withdrawal T x j k) (cell_onset T x j k))\<rparr>))"

text \<open>
  \<open>npi\<close> (line 43) and \<open>kitoh_uchiyama\<close>: smoothing and normalisation run along the
  axis named \<open>pentaddim\<close>; the detection of \<open>season_edges\<close> is given the resulting array
  as it is.
\<close>

definition npi :: "real option array3 \<Rightarrow> nat \<Rightarrow> fl array3" where
  "npi p axisno = along axisno npi_series (p_smooth p axisno)"

definition kitoh_uchiyama ::
  "dataarray \<Rightarrow> string \<Rightarrow> string \<Rightarrow> string \<Rightarrow> py_error + season" where
  "kitoh_uchiyama p_pentad latdim londim pentaddim =
     (case get_axis_num (dims p_pentad) pentaddim of
        None \<Rightarrow> Inl ValueError
      | Some axisno \<Rightarrow>
          if axis_len (vals p_pentad) axisno = 0 then Inl ValueError
          else season_edges (618 / 1000) (dims p_pentad) (npi (vals p_pentad) axisno) latdim londim)"

text \<open>
  \<open>rain_rel\<close> (line 40) and \<open>wang_linho\<close>. \<open>p_month\<close> is taken already broadcast
  against \<open>p_pentad\<close>, as a function of the three indices, and without NaN.
\<close>

definition rain_rel ::
  "real option array3 \<Rightarrow> (nat \<Rightarrow> nat \<Rightarrow> nat \<Rightarrow> real) \<Rightarrow> nat \<Rightarrow> fl array3" where
  "rain_rel p p_month axisno =
     \<lparr>n0 = n0 p, n1 = n1 p, n2 = n2 p,
      elem = (\<lambda>i j k. case elem (p_smooth p axisno) i j k of
                          None \<Rightarrow> NaN
                        | Some v \<Rightarrow> Fin (v - p_month i j k))\<rparr>"

definition wang_linho ::
  "dataarray \<Rightarrow> (nat \<Rightarrow> nat \<Rightarrow> nat \<Rightarrow> real) \<Rightarrow> string \<Rightarrow> string \<Rightarrow> string \<Rightarrow> py_error + season" where
  "wang_linho p_pentad p_month latdim londim pentaddim =
     (case get_axis_num (dims p_pentad) pentaddim of
        None \<Rightarrow> Inl ValueError
      | Some axisno \<Rightarrow>
          if axis_len (vals p_pentad) axisno = 0 then Inl ValueError
          else season_edges 5 (dims p_pentad) (rain_rel (vals p_pentad) p_month axisno) latdim londim)"

section \<open>Name resolution in gao\_etal\_2001.py (area\_mean 72-98, gao\_onset 103-140)\<close>

text \<open>
  Python looks a name up in the local frame, then in the globals of the module (the
  builtins, which hold no \<open>u\<close>, are left out); a name bound in neither raises
  \<open>NameError\<close>. Values are the constants, modules and functions a module binds, and
  data.
\<close>

datatype 'a pyval = PyNone | PyFloat real | PyModule string | PyFunction string | PyData 'a

definition load_name ::
  "(string \<times> 'v) list \<Rightarrow> (string \<times> 'v) list \<Rightarrow> string \<Rightarrow> py_error + 'v" where
  "load_name locals globals name =
     (case map_of locals name of
        Some v \<Rightarrow> Inr v
      | None \<Rightarrow> (case map_of globals name of
                   Some v \<Rightarrow> Inr v
                 | None \<Rightarrow> Inl (NameError name)))"

text \<open>
  The names that gao\_etal\_2001.py binds at module level (lines 11-19 and its five
  \<open>def\<close>s).
\<close>

definition gao_module :: "(string \<times> 'a pyval) list" where
  "gao_module =
     [(''np'', PyModule ''numpy''), (''xr'', PyModule ''xarray''),
      (''cp_air'', PyFloat (10046 / 10)), (''L'', PyFloat 2507000),
      (''rdgas'', PyFloat (28704 / 100)), (''rvgas'', PyFloat (4615 / 10)),
      (''tfreeze'', PyFloat (27316 / 100)), (''a'', PyFloat 6371000),
      (''sat_vap_pres'', PyFunction ''sat_vap_pres''),
      (''equiv_pot_t_ams'', PyFunction ''equiv_pot_t_ams''),
      (''rename_coords'', PyFunction ''rename_coords''),
      (''area_mean'', PyFunction ''area_mean''),
      (''gao_onset'', PyFunction ''gao_onset'')]"

text \<open>
  \<open>area_mean(var_in, areacell=None)\<close>: its frame holds \<open>var_in\<close> and \<open>areacell\<close>.
  The first statement (line 75) evaluates \<open>u.lat\<close>, which loads the name \<open>u\<close>; the
  statements after that load are \<open>rest\<close>, given the value found for \<open>u\<close>.
\<close>

definition area_mean ::
  "'a \<Rightarrow> 'a option \<Rightarrow> ('a pyval \<Rightarrow> py_error + 'b) \<Rightarrow> py_error + 'b" where
  "area_mean var_in areacell rest =
     (case load_name
             [(''var_in'', PyData var_in),
              (''areacell'', case areacell of None \<Rightarrow> PyNone | Some g \<Rightarrow> PyData g)]
             gao_module ''u'' of
        Inl e \<Rightarrow> Inl e
      | Inr u \<Rightarrow> rest u)"

text \<open>
  \<open>gao_onset\<close>: the statements before the first call of \<open>area_mean\<close> (three calls of
  \<open>rename_coords\<close>, then \<open>equiv_pot_t_ams\<close>) are \<open>prelude\<close>, which raises or yields
  \<open>th_e\<close> and the renamed \<open>u\<close>; then the two calls of \<open>area_mean\<close> (lines 123-124);
  the loop over the pentads is \<open>scan\<close>.
\<close>

definition gao_onset ::
  "('a \<Rightarrow> 'a \<Rightarrow> 'a \<Rightarrow> py_error + 'a \<times> 'a) \<Rightarrow> ('a pyval \<Rightarrow> py_error + 'b)
     \<Rightarrow> ('b \<Rightarrow> 'b \<Rightarrow> py_error + int option)
     \<Rightarrow> 'a \<Rightarrow> 'a \<Rightarrow> 'a \<Rightarrow> 'a option \<Rightarrow> py_error + int option" where
  "gao_onset prelude rest scan t q u areacell =
     (case prelude t q u of
        Inl e \<Rightarrow> Inl e
      | Inr (th_e, u_850) \<Rightarrow>
          (case area_mean th_e areacell rest of
             Inl e \<Rightarrow> Inl e
           | Inr th_e_mean \<Rightarrow>
               (case area_mean u_850 areacell rest of
                  Inl e \<Rightarrow> Inl e
                | Inr u_mean \<Rightarrow> scan th_e_mean u_mean)))"

section \<open>Reading a result; example inputs\<close>

text \<open>
  The value of a returned field at a position, \<open>None\<close> when the call raised.
\<close>

definition onset_at :: "py_error + season \<Rightarrow> nat \<Rightarrow> nat \<Rightarrow> fl option" where
  "onset_at res j k = (case res of Inl e \<Rightarrow> None | Inr r \<Rightarrow> Some (onset_pentad r j k))"

definition withdrawal_at :: "py_error + season \<Rightarrow> nat \<Rightarrow> nat \<Rightarrow> fl option" where
  "withdrawal_at res j k = (case res of Inl e \<Rightarrow> None | Inr r \<Rightarrow> Some (withdrawal_pentad r j k))"

definition peak_at :: "py_error + season \<Rightarrow> nat \<Rightarrow> nat \<Rightarrow> fl option" where
  "peak_at res j k = (case res of Inl e \<Rightarrow> None | Inr r \<Rightarrow> Some (peak_pentad r j k))"

definition duration_at :: "py_error + season \<Rightarrow> nat \<Rightarrow> nat \<Rightarrow> fl option" where
  "duration_at res j k = (case res of Inl e \<Rightarrow> None | Inr r \<Rightarrow> Some (duration r j k))"

text \<open>
  \<open>row_of_cells\<close> builds an array with the time on axis 0, one latitude, and one
  longitude per given series. The other constants are the inputs of the examples
  below.
\<close>

definition row_of_cells :: "'a list list \<Rightarrow> 'a array3" where
  "row_of_cells css =
     \<lparr>n0 = length (hd css), n1 = 1, n2 = length css, elem = (\<lambda>t j k. css ! k ! t)\<rparr>"

definition pentad_lat_lon :: "string \<times> string \<times> string" where
  "pentad_lat_lon = (''pentad'', ''lat'', ''lon'')"

definition lat_lon_pentad :: "string \<times> string \<times> string" where
  "lat_lon_pentad = (''lat'', ''lon'', ''pentad'')"

definition time_lat_lon :: "string \<times> string \<times> string" where
  "time_lat_lon = (''time'', ''lat'', ''lon'')"

definition rising_cube :: "real option array3" where
  "rising_cube = \<lparr>n0 = 2, n1 = 2, n2 = 2, elem = (\<lambda>i j k. Some (real k))\<rparr>"

definition flat_five :: dataarray where
  "flat_five = \<lparr>dims = pentad_lat_lon, vals = row_of_cells [[Some 5, Some 5]]\<rparr>"

definition zero_month :: "nat \<Rightarrow> nat \<Rightarrow> nat \<Rightarrow> real" where
  "zero_month i j k = 0"

definition dry_cell :: dataarray where
  "dry_cell = \<lparr>dims = pentad_lat_lon, vals = row_of_cells [[Some 0, Some 0]]\<rparr>"

definition rising_pentad_last :: dataarray where
  "rising_pentad_last = \<lparr>dims = lat_lon_pentad, vals = rising_cube\<rparr>"

definition crossing_cube :: "real option array3" where
  "crossing_cube =
     \<lparr>n0 = 2, n1 = 2, n2 = 2, elem = (\<lambda>i j k. Some (if i = k then 10 else 0))\<rparr>"

definition crossing_pentad_last :: dataarray where
  "crossing_pentad_last = \<lparr>dims = lat_lon_pentad, vals = crossing_cube\<rparr>"

definition rising_pentad_first :: dataarray where
  "rising_pentad_first = \<lparr>dims = pentad_lat_lon, vals = row_of_cells [[Some 0, Some 1]]\<rparr>"

definition impulse_30 :: dataarray where
  "impulse_30 = \<lparr>dims = time_lat_lon, vals = row_of_cells [map Some (30 # replicate 29 0)]\<rparr>"

definition gappy :: dataarray where
  "gappy = \<lparr>dims = time_lat_lon, vals = row_of_cells [[Some 1, None, Some 3]]\<rparr>"

section \<open>Properties of the regional reducer\<close>

subsection \<open>Rounding to two decimals\<close>

lemma rint_zero_iff: "rint y = 0 \<longleftrightarrow> - (1 / 2) \<le> y \<and> y \<le> 1 / 2"
proof -
  have b: "of_int \<lfloor>y\<rfloor> \<le> y" "y < of_int \<lfloor>y\<rfloor> + 1" by linarith+
  consider "\<lfloor>y\<rfloor> \<le> -2" | "\<lfloor>y\<rfloor> = -1" | "\<lfloor>y\<rfloor> = 0" | "\<lfloor>y\<rfloor> \<ge> 1" by linarith
  then show ?thesis
  proof cases
    case 1
    then have "y < -1" using b by linarith
    moreover have "rint y \<le> \<lfloor>y\<rfloor> + 1" by (simp add: rint_def Let_def)
    ultimately show ?thesis using 1 by linarith
  next
    case 2
    then show ?thesis using b by (auto simp: rint_def Let_def)
  next
    case 3
    then show ?thesis using b by (auto simp: rint_def Let_def)
  next
    case 4
    then have "y \<ge> 1" using b by linarith
    moreover have "rint y \<ge> \<lfloor>y\<rfloor>" by (simp add: rint_def Let_def)
    ultimately show ?thesis using 4 by linarith
  qed
qed

lemma np_round2_zero_iff: "np_round2 d = 0 \<longleftrightarrow> \<bar>d\<bar> \<le> 1 / 200"
  unfolding np_round2_def by (simp add: rint_zero_iff) linarith

lemma coords_same_iff:
  "length a = length b \<Longrightarrow>
     coords_same a b \<longleftrightarrow> (\<forall>i<length b. \<bar>a ! i - b ! i\<bar> \<le> 1 / 200)"
  unfolding coords_same_def
  by (simp add: list_all_length np_round2_zero_iff)

text \<open>
  Claim C4, amended. For a supplied cell-area grid that carries the named latitude and
  longitude dimensions (the renaming succeeds and yields the axes \<open>alat\<close>, \<open>alon\<close>):
  the cell areas are used, with no notice, if and only if the axes have the lengths of
  the field's and every coordinate differs from the field's by at most 0.005 (the code
  rounds the difference to two decimals and compares with zero); in every other case the
  result is the cosine weighting together with the notice, and never an error.
\<close>

theorem choose_weights_cell_area_iff:
  assumes "rename_lat_lon latdim londim g = Inr g'"
    and "map_of g' ''lat'' = Some alat" and "map_of g' ''lon'' = Some alon"
  shows "choose_weights (Some g) who latdim londim lat lon =
           Inr (if length alat = length lat \<and> length alon = length lon
                   \<and> (\<forall>i<length lat. \<bar>alat ! i - lat ! i\<bar> \<le> 1 / 200)
                   \<and> (\<forall>i<length lon. \<bar>alon ! i - lon ! i\<bar> \<le> 1 / 200)
                then (CellArea, [])
                else (CosLat, [mismatch_notice who]))"
proof (cases "length alat = length lat \<and> length alon = length lon")
  case True
  then show ?thesis
    using assms by (simp add: choose_weights_def Let_def coords_same_iff)
next
  case False
  then show ?thesis
    using assms by (auto simp: choose_weights_def Let_def)
qed

theorem choose_weights_cell_area_iff_witness:
  "choose_weights (Some [(''latitude'', [10 + 1 / 256, 20]), (''longitude'', [100])])
      ''u'' ''latitude'' ''longitude'' [10, 20] [100] = Inr (CellArea, [])
   \<and> choose_weights (Some [(''latitude'', [10 + 1 / 128, 20]), (''longitude'', [100])])
      ''u'' ''latitude'' ''longitude'' [10, 20] [100] = Inr (CosLat, [mismatch_notice ''u''])
   \<and> choose_weights (Some [(''latitude'', [10, 20, 30]), (''longitude'', [100])])
      ''u'' ''latitude'' ''longitude'' [10, 20] [100] = Inr (CosLat, [mismatch_notice ''u''])"
proof -
  have r: "rename_lat_lon ''latitude'' ''longitude'' [(''latitude'', a), (''longitude'', b)]
             = Inr [(''lat'', a), (''lon'', b)]" for a b
    by (simp add: rename_lat_lon_def)
  have m: "map_of [(''lat'', a), (''lon'', b)] ''lat'' = Some a"
          "map_of [(''lat'', a), (''lon'', b)] ''lon'' = Some b" for a b :: "real list"
    by simp_all
  show ?thesis
    using choose_weights_cell_area_iff[OF r m, of "[10 + 1 / 256, 20]" "[100]" "''u''" "[10, 20]" "[100]"]
          choose_weights_cell_area_iff[OF r m, of "[10 + 1 / 128, 20]" "[100]" "''u''" "[10, 20]" "[100]"]
          choose_weights_cell_area_iff[OF r m, of "[10, 20, 30]" "[100]" "''u''" "[10, 20]" "[100]"]
    by (simp add: less_Suc_eq numeral_2_eq_2 all_conj_distrib)
qed

text \<open>
  Claim C4 as stated fails twice. A grid whose only latitude is off by 1/128 (within
  0.01) and whose lengths match is rejected, with the notice. And a grid whose dimensions
  are not the named ones is no fallback: the renaming raises ValueError.
\<close>

theorem choose_weights_tolerance_counterexample:
  "\<bar>(10 + 1 / 128) - (10::real)\<bar> \<le> 1 / 100
   \<and> choose_weights (Some [(''lat'', [10 + 1 / 128]), (''lon'', [100])]) ''u'' ''lat'' ''lon'' [10] [100]
       = Inr (CosLat, [''Warning, cell area dimensions do not match those of u, defaulting to using cosine weighted averaging''])
   \<and> choose_weights (Some [(''y'', [10]), (''x'', [100])]) ''u'' ''lat'' ''lon'' [10] [100]
       = Inl ValueError"
  by (simp add: choose_weights_def rename_lat_lon_def mismatch_notice_def coords_same_def
        np_round2_def rint_def)

subsection \<open>Longitude selection\<close>

lemma yim_precip_select_NAF:
  "yim_precip_select ''NAF'' [0, 10, 20] [0, 20, 180, 340] = Inr ([10], [0, 20, 340])"
  by (simp add: yim_precip_select_def yim_precip_bounds_def regions_def yim_precip_lats_def
        yim_precip_lons_def)

lemma yim_precip_select_NAF_negative_grid:
  "yim_precip_select ''NAF'' [0, 10, 20] [-40, -20, 0, 20, 40] = Inr ([10], [-20, 0, 20])"
  by (simp add: yim_precip_select_def yim_precip_bounds_def regions_def yim_precip_lats_def
        yim_precip_lons_def)

text \<open>
  The branch of lines 48-51 by the order of the bounds: the code tests \<open>lonb > lona\<close>, so
  equal bounds would take the disjunction and keep every longitude.
\<close>

lemma yim_precip_lons_cases:
  "(lonb < lona \<longrightarrow>
      yim_precip_lons lona lonb lon = filter (\<lambda>x. x \<ge> lona \<or> x \<le> lonb) lon)
   \<and> (lona < lonb \<longrightarrow>
      yim_precip_lons lona lonb lon = filter (\<lambda>x. x \<ge> lona \<and> x \<le> lonb) lon)
   \<and> (lonb = lona \<longrightarrow> yim_precip_lons lona lonb lon = lon)"
proof -
  have "filter (\<lambda>x. lona \<le> x \<or> x \<le> lona) lon = lon"
    by (rule filter_True) auto
  then show ?thesis
    by (auto simp: yim_precip_lons_def)
qed

text \<open>
  No box that either module selects with has equal longitude bounds, before or after
  the shift by 360; the boxes of yim\_vort never wrap.
\<close>

lemma yim_precip_bounds_distinct:
  assumes "yim_precip_bounds region lon = Inr ((lata, latb), (lona, lonb))"
  shows "lona \<noteq> lonb"
  using assms
  by (auto simp: yim_precip_bounds_def regions_def split: if_splits)

lemma yim_vort_bounds_ordered:
  assumes "yim_vort_bounds region lon = Inr (((lat1a, lat1b), (lon1a, lon1b)), box2)"
  shows "lon1a < lon1b"
    and "box2 = Some ((lat2a, lat2b), (lon2a, lon2b)) \<Longrightarrow> lon2a < lon2b"
    and "box2 = None \<longleftrightarrow> region = ''NAFSM''"
  using assms
  by (auto simp: yim_vort_bounds_def vort_regions_def split: if_splits option.splits)

text \<open>
  Claim C7. For every region of either table and every grid, with the bounds in force
  after the shift: a box whose longitude maximum is below its minimum has exactly the
  grid longitudes with \<open>lon \<ge> min\<close> or \<open>lon \<le> max\<close> selected, and a box whose
  maximum is at or above its minimum exactly those with \<open>lon \<ge> min\<close> and
  \<open>lon \<le> max\<close>, in grid order. This holds for yim\_precip (first conjunct, with the
  latitudes) and for both boxes of yim\_vort (second conjunct).
\<close>

theorem region_longitudes_selected:
  "(yim_precip_bounds region lon = Inr ((lata, latb), (lona, lonb)) \<longrightarrow>
      yim_precip_select region lat lon =
        Inr (filter (\<lambda>y. y \<ge> lata \<and> y \<le> latb) lat,
             if lonb < lona then filter (\<lambda>x. x \<ge> lona \<or> x \<le> lonb) lon
             else filter (\<lambda>x. x \<ge> lona \<and> x \<le> lonb) lon))
   \<and> (yim_vort_bounds region lon = Inr (((lat1a, lat1b), (lon1a, lon1b)), box2) \<longrightarrow>
      yim_vort_select region lat lon =
        Inr ((filter (\<lambda>y. y \<ge> lat1a \<and> y \<le> lat1b) lat,
              if lon1b < lon1a then filter (\<lambda>x. x \<ge> lon1a \<or> x \<le> lon1b) lon
              else filter (\<lambda>x. x \<ge> lon1a \<and> x \<le> lon1b) lon),
             map_option
               (\<lambda>((lat2a, lat2b), (lon2a, lon2b)).
                  (filter (\<lambda>y. y \<ge> lat2a \<and> y \<le> lat2b) lat,
                   if lon2b < lon2a then filter (\<lambda>x. x \<ge> lon2a \<or> x \<le> lon2b) lon
                   else filter (\<lambda>x. x \<ge> lon2a \<and> x \<le> lon2b) lon))
               box2))"
proof -
  have p: "yim_precip_select region lat lon =
        Inr (filter (\<lambda>y. y \<ge> lata \<and> y \<le> latb) lat,
             if lonb < lona then filter (\<lambda>x. x \<ge> lona \<or> x \<le> lonb) lon
             else filter (\<lambda>x. x \<ge> lona \<and> x \<le> lonb) lon)"
    if h: "yim_precip_bounds region lon = Inr ((lata, latb), (lona, lonb))"
    using yim_precip_bounds_distinct[OF h]
    by (simp add: yim_precip_select_def h yim_precip_lats_def yim_precip_lons_def)
  have v: "yim_vort_select region lat lon =
        Inr ((filter (\<lambda>y. y \<ge> lat1a \<and> y \<le> lat1b) lat,
              if lon1b < lon1a then filter (\<lambda>x. x \<ge> lon1a \<or> x \<le> lon1b) lon
              else filter (\<lambda>x. x \<ge> lon1a \<and> x \<le> lon1b) lon),
             map_option
               (\<lambda>((lat2a, lat2b), (lon2a, lon2b)).
                  (filter (\<lambda>y. y \<ge> lat2a \<and> y \<le> lat2b) lat,
                   if lon2b < lon2a then filter (\<lambda>x. x \<ge> lon2a \<or> x \<le> lon2b) lon
                   else filter (\<lambda>x. x \<ge> lon2a \<and> x \<le> lon2b) lon))
               box2)"
    if h: "yim_vort_bounds region lon = Inr (((lat1a, lat1b), (lon1a, lon1b)), box2)"
  proof (cases box2)
    case None
    then have "region = ''NAFSM''" using yim_vort_bounds_ordered(3)[OF h] by simp
    then show ?thesis
      unfolding yim_vort_select_def h
      using yim_vort_bounds_ordered(1)[OF h] None
      by (simp add: yim_vort_lons_def)
  next
    case (Some b)
    obtain lat2a lat2b lon2a lon2b where b: "b = ((lat2a, lat2b), (lon2a, lon2b))"
      by (metis surj_pair)
    have r: "region \<noteq> ''NAFSM''" using yim_vort_bounds_ordered(3)[OF h] Some by simp
    have o: "lon2a < lon2b" using yim_vort_bounds_ordered(2)[OF h] Some b by simp
    show ?thesis
      unfolding yim_vort_select_def h
      using yim_vort_bounds_ordered(1)[OF h] o r
      by (simp add: yim_vort_lons_def Some b)
  qed
  show ?thesis using p v by blast
qed

theorem region_longitudes_selected_witness:
  "yim_precip_bounds ''NAF'' [0, 20, 180, 340] = Inr ((5, 15), (330, 30))
   \<and> yim_precip_select ''NAF'' [0, 10, 20] [0, 20, 180, 340] = Inr ([10], [0, 20, 340])
   \<and> yim_precip_bounds ''NAF'' [-40, -20, 0, 20, 40] = Inr ((5, 15), (-30, 30))
   \<and> yim_precip_select ''NAF'' [0, 10, 20] [-40, -20, 0, 20, 40] = Inr ([10], [-20, 0, 20])
   \<and> yim_vort_bounds ''ISM'' [30, 50, 75, 90] = Inr (((5, 15), (40, 80)), Some ((25, 35), (70, 90)))
   \<and> yim_vort_select ''ISM'' [0, 10, 30] [30, 50, 75, 90] =
       Inr (([10], [50, 75]), Some ([30], [75, 90]))
   \<and> yim_vort_bounds ''NAFSM'' [0, 310, 355] = Inr (((0, 15), (300, 350)), None)
   \<and> yim_vort_select ''NAFSM'' [0, 10, 30] [0, 310, 355] = Inr (([0, 10], [310]), None)"
proof -
  have a: "yim_precip_bounds ''NAF'' [0, 20, 180, 340] = Inr ((5, 15), (330, 30))"
    by (simp add: yim_precip_bounds_def regions_def)
  have b: "yim_precip_bounds ''NAF'' [-40, -20, 0, 20, 40] = Inr ((5, 15), (-30, 30))"
    by (simp add: yim_precip_bounds_def regions_def)
  have c: "yim_vort_bounds ''ISM'' [30, 50, 75, 90] = Inr (((5, 15), (40, 80)), Some ((25, 35), (70, 90)))"
    by (simp add: yim_vort_bounds_def vort_regions_def)
  have d: "yim_vort_bounds ''NAFSM'' [0, 310, 355] = Inr (((0, 15), (300, 350)), None)"
    by (simp add: yim_vort_bounds_def vort_regions_def)
  show ?thesis
    using region_longitudes_selected[of "''NAF''" "[0, 20, 180, 340]" 5 15 330 30 "[0, 10, 20]"]
          region_longitudes_selected[of "''NAF''" "[-40, -20, 0, 20, 40]" 5 15 "-30" 30 "[0, 10, 20]"]
          region_longitudes_selected[of "''ISM''" "[30, 50, 75, 90]" 0 0 0 0 "[0, 10, 30]"
                                        5 15 40 80 "Some ((25, 35), (70, 90))"]
          region_longitudes_selected[of "''NAFSM''" "[0, 310, 355]" 0 0 0 0 "[0, 10, 30]"
                                        0 15 300 350 None]
          a b c d
    by simp
qed

section \<open>Properties of condition A\<close>

lemma length_filter_id_eq: "length (filter P xs) = length xs \<longleftrightarrow> (\<forall>x\<in>set xs. P x)"
proof (induction xs)
  case Nil
  then show ?case by simp
next
  case (Cons x xs)
  have le: "length (filter P xs) \<le> length xs" by (rule length_filter_le)
  show ?case
  proof (cases "P x")
    case True
    then show ?thesis using Cons by simp
  next
    case False
    have "length (filter P xs) < Suc (length xs)" using le by arith
    then show ?thesis using False by auto
  qed
qed

lemma window_sum_iff:
  assumes "i + p \<le> length cond"
  shows "window_sum cond i p = p \<longleftrightarrow> (\<forall>j<p. cond ! (i + j))"
proof -
  let ?w = "take p (drop i cond)"
  have len: "length ?w = p" using assms by simp
  have nth: "\<And>j. j < p \<Longrightarrow> ?w ! j = cond ! (i + j)" using assms by simp
  have "window_sum cond i p = p \<longleftrightarrow> (\<forall>x\<in>set ?w. x)"
    unfolding window_sum_def using length_filter_id_eq[of id ?w] len by simp
  also have "\<dots> \<longleftrightarrow> (\<forall>j<p. ?w ! j)"
    using len by (metis in_set_conv_nth)
  also have "\<dots> \<longleftrightarrow> (\<forall>j<p. cond ! (i + j))" using nth by simp
  finally show ?thesis .
qed

lemma cond_a_sel:
  "map (\<lambda>i. cond_a_array p cond ! i) [1..<length cond - p] =
   map (\<lambda>i. if window_sum cond i p = p then Fin (real i) else NaN) [1..<length cond - p]"
  by (rule map_cong) (auto simp: cond_a_array_def)

lemma set_fin_values:
  "set (concat (map (\<lambda>x. case x of Fin v \<Rightarrow> [v] | _ \<Rightarrow> []) xs)) = {v. Fin v \<in> set xs}"
  by (induction xs) (auto split: fl.splits)

lemma nanmin_cases:
  "(nanmin xs = NaN \<and> (\<forall>v. Fin v \<notin> set xs)) \<or>
   (\<exists>m. nanmin xs = Fin m \<and> Fin m \<in> set xs \<and> (\<forall>v. Fin v \<in> set xs \<longrightarrow> m \<le> v))"
proof -
  define vs where "vs = concat (map (\<lambda>x. case x of Fin v \<Rightarrow> [v] | _ \<Rightarrow> []) xs)"
  have s: "set vs = {v. Fin v \<in> set xs}" unfolding vs_def by (rule set_fin_values)
  have n: "nanmin xs = (if vs = [] then NaN else Fin (Min (set vs)))"
    by (simp add: nanmin_def vs_def)
  show ?thesis
  proof (cases "vs = []")
    case True
    then have "set vs = {}" by simp
    then have "\<forall>v. Fin v \<notin> set xs" using s by auto
    then show ?thesis using n True by simp
  next
    case False
    then have ne: "set vs \<noteq> {}" by simp
    have m1: "Min (set vs) \<in> set vs" using ne by (simp add: Min_in)
    have m2: "\<forall>v\<in>set vs. Min (set vs) \<le> v" by simp
    show ?thesis using n False m1 m2 s by auto
  qed
qed

lemma nanmin_NaN_iff: "nanmin xs = NaN \<longleftrightarrow> (\<forall>v. Fin v \<notin> set xs)"
  using nanmin_cases[of xs] by auto

lemma nanmin_Fin_iff:
  "nanmin xs = Fin m \<longleftrightarrow> Fin m \<in> set xs \<and> (\<forall>v. Fin v \<in> set xs \<longrightarrow> m \<le> v)"
proof
  assume "nanmin xs = Fin m"
  then show "Fin m \<in> set xs \<and> (\<forall>v. Fin v \<in> set xs \<longrightarrow> m \<le> v)"
    using nanmin_cases[of xs] by auto
next
  assume a: "Fin m \<in> set xs \<and> (\<forall>v. Fin v \<in> set xs \<longrightarrow> m \<le> v)"
  then obtain m' where m': "nanmin xs = Fin m'" "Fin m' \<in> set xs"
      "\<forall>v. Fin v \<in> set xs \<longrightarrow> m' \<le> v"
    using nanmin_cases[of xs] by blast
  have "m \<le> m'" using a m'(2) by blast
  moreover have "m' \<le> m" using a m'(3) by blast
  ultimately show "nanmin xs = Fin m" using m'(1) by simp
qed

lemma sel_mem:
  "Fin v \<in> set (map (\<lambda>i. if window_sum cond i p = p then Fin (real i) else NaN)
                    [1..<length cond - p])
     \<longleftrightarrow> (\<exists>i. v = real i \<and> cond_a_candidate p cond i)"
  by (auto simp: cond_a_candidate_def window_sum_iff)

lemma cond_a_onset_nanmin:
  assumes "p + 2 \<le> length cond"
  shows "cond_a_onset (int p) cond =
     Inr (nanmin (map (\<lambda>i. if window_sum cond i p = p then Fin (real i) else NaN)
                      [1..<length cond - p]))"
proof -
  have ne: "map (\<lambda>i. if window_sum cond i p = p then Fin (real i) else NaN)
              [1..<length cond - p] \<noteq> []"
    using assms by simp
  show ?thesis
    unfolding cond_a_onset_def Let_def nat_int cond_a_sel using ne by simp
qed

lemma cond_a_onset_Fin:
  assumes "p + 2 \<le> length cond"
  shows "cond_a_onset (int p) cond = Inr (Fin (real k)) \<longleftrightarrow>
           cond_a_candidate p cond k \<and> (\<forall>i. cond_a_candidate p cond i \<longrightarrow> k \<le> i)"
  unfolding cond_a_onset_nanmin[OF assms] sum.inject nanmin_Fin_iff sel_mem
  by auto

lemma cond_a_onset_NaN:
  assumes "p + 2 \<le> length cond"
  shows "cond_a_onset (int p) cond = Inr NaN \<longleftrightarrow> (\<forall>i. \<not> cond_a_candidate p cond i)"
  unfolding cond_a_onset_nanmin[OF assms] sum.inject nanmin_NaN_iff sel_mem
  by auto

lemma cond_a_onset_result:
  assumes "cond_a_onset p cond = Inr r"
  shows "r = NaN \<or> (\<exists>i. r = Fin (real i) \<and> cond_a_candidate (nat p) cond i)"
proof -
  from assms have p0: "0 \<le> p" by (auto simp: cond_a_onset_def split: if_splits)
  from assms p0 have len: "nat p + 2 \<le> length cond"
    by (auto simp: cond_a_onset_def Let_def split: if_splits)
  have "cond_a_onset (int (nat p)) cond = Inr r" using assms p0 by simp
  then have r: "r = nanmin (map (\<lambda>i. if window_sum cond i (nat p) = nat p
                                   then Fin (real i) else NaN)
                     [1..<length cond - nat p])"
    unfolding cond_a_onset_nanmin[OF len] by simp
  show ?thesis
    using nanmin_cases[of "map (\<lambda>i. if window_sum cond i (nat p) = nat p
                                   then Fin (real i) else NaN)
                     [1..<length cond - nat p]"]
    unfolding sel_mem r[symmetric] by auto
qed

lemma cond_a_onset_all_true:
  assumes "p + 2 \<le> n"
  shows "cond_a_onset (int p) (replicate n True) = Inr (Fin 1)"
proof -
  have len: "p + 2 \<le> length (replicate n True)" using assms by simp
  have c1: "cond_a_candidate p (replicate n True) 1"
    using assms by (auto simp: cond_a_candidate_def)
  have "cond_a_onset (int p) (replicate n True) = Inr (Fin (real 1))"
    using cond_a_onset_Fin[OF len, of 1] c1 by (auto simp: cond_a_candidate_def)
  then show ?thesis by simp
qed

lemma li_zhang_cond_a_scenario:
  assumes "16 \<le> m" "0 \<le> bj" "bj / 2 < c"
  shows "li_zhang_cond_a 15 (replicate 20 0 @ replicate m c) bj = Inr (Fin 20)"
proof -
  let ?cond = "replicate 20 False @ replicate m True"
  from assms have c: "map (\<lambda>b. b > bj / 2) (replicate 20 0 @ replicate m c) = ?cond"
    by simp
  have len: "15 + 2 \<le> length ?cond" using assms by simp
  have c20: "cond_a_candidate 15 ?cond 20"
    using assms by (auto simp: cond_a_candidate_def nth_append)
  have mn: "\<forall>i. cond_a_candidate 15 ?cond i \<longrightarrow> 20 \<le> i"
  proof (intro allI impI)
    fix i assume h: "cond_a_candidate 15 ?cond i"
    show "20 \<le> i"
    proof (rule ccontr)
      assume "\<not> 20 \<le> i"
      then have "i < 20" by simp
      then have "\<not> ?cond ! (i + 0)" by (simp add: nth_append)
      moreover have "?cond ! (i + 0)"
        using h unfolding cond_a_candidate_def by (metis zero_less_numeral)
      ultimately show False by simp
    qed
  qed
  have "cond_a_onset (int 15) ?cond = Inr (Fin (real 20))"
    using cond_a_onset_Fin[OF len, of 20] c20 mn by blast
  then show ?thesis unfolding li_zhang_cond_a_def c by simp
qed

text \<open>
  What lines 98-103 compute. For a series with at least \<open>p + 2\<close> steps the result is
  the earliest of the candidates \<open>1, ..., N-p-1\<close> from which the condition holds for
  \<open>p\<close> consecutive steps, and NaN when no candidate does. A \<open>beta\<close> series that is zero
  for the steps 0..19 and a constant above half the July-August value from step 20 on,
  with \<open>p = 15\<close> and at least 36 steps, gets 20.
\<close>

lemma cond_a_onset_earliest_candidate:
  "(p + 2 \<le> length cond \<longrightarrow>
      (cond_a_onset (int p) cond = Inr (Fin (real k)) \<longleftrightarrow>
         cond_a_candidate p cond k \<and> (\<forall>i. cond_a_candidate p cond i \<longrightarrow> k \<le> i)))
   \<and> (p + 2 \<le> length cond \<longrightarrow>
      (cond_a_onset (int p) cond = Inr NaN \<longleftrightarrow> (\<forall>i. \<not> cond_a_candidate p cond i)))
   \<and> (16 \<le> m \<and> 0 \<le> bj \<and> bj / 2 < c \<longrightarrow>
      li_zhang_cond_a 15 (replicate 20 0 @ replicate m c) bj = Inr (Fin 20))"
  using cond_a_onset_Fin[of p cond k] cond_a_onset_NaN[of p cond]
        li_zhang_cond_a_scenario[of m bj c]
  by blast

lemma cond_a_onset_earliest_candidate_examples:
  "cond_a_candidate 15 (replicate 20 False @ replicate 20 True) 20
   \<and> cond_a_onset 15 (replicate 20 False @ replicate 20 True) = Inr (Fin 20)
   \<and> cond_a_onset 15 (replicate 40 False) = Inr NaN
   \<and> li_zhang_cond_a 15 (replicate 20 0 @ replicate 20 1) 1 = Inr (Fin 20)"
proof -
  let ?c = "replicate 20 False @ replicate 20 True"
  have c20: "cond_a_candidate 15 ?c 20"
    by (auto simp: cond_a_candidate_def nth_append)
  have mn: "\<forall>i. cond_a_candidate 15 ?c i \<longrightarrow> 20 \<le> i"
  proof (intro allI impI)
    fix i assume h: "cond_a_candidate 15 ?c i"
    show "20 \<le> i"
    proof (rule ccontr)
      assume "\<not> 20 \<le> i"
      then have "i < 20" by simp
      then have "\<not> ?c ! (i + 0)" by (simp add: nth_append)
      moreover have "?c ! (i + 0)"
        using h unfolding cond_a_candidate_def by (metis zero_less_numeral)
      ultimately show False by simp
    qed
  qed
  have none: "\<forall>i. \<not> cond_a_candidate 15 (replicate 40 False) i"
  proof (intro allI notI)
    fix i assume h: "cond_a_candidate 15 (replicate 40 False) i"
    then have "i + 0 < 40" by (simp add: cond_a_candidate_def)
    moreover have "replicate 40 False ! (i + 0)"
      using h unfolding cond_a_candidate_def by (metis zero_less_numeral)
    ultimately show False by simp
  qed
  have a: "cond_a_onset (int 15) ?c = Inr (Fin (real 20))"
    using cond_a_onset_earliest_candidate[of 15 ?c 20 20 1 1] c20 mn by simp
  have b: "cond_a_onset (int 15) (replicate 40 False) = Inr NaN"
    using cond_a_onset_earliest_candidate[of 15 "replicate 40 False" 0 20 1 1] none by simp
  have d: "li_zhang_cond_a 15 (replicate 20 0 @ replicate 20 1) 1 = Inr (Fin 20)"
    using cond_a_onset_earliest_candidate[of 15 ?c 20 20 1 1] by simp
  show ?thesis using a b c20 d by simp
qed

lemma no_candidate_35:
  "\<not> cond_a_candidate 15 (replicate 20 False @ replicate 15 True) i"
proof
  assume h: "cond_a_candidate 15 (replicate 20 False @ replicate 15 True) i"
  then have "i + 15 < 35" by (simp add: cond_a_candidate_def)
  then have "\<not> (replicate 20 False @ replicate 15 True) ! (i + 0)" by (simp add: nth_append)
  moreover have "(replicate 20 False @ replicate 15 True) ! (i + 0)"
    using h unfolding cond_a_candidate_def by (metis zero_less_numeral)
  ultimately show False by simp
qed

text \<open>
  Claim C8 fails on the code at both ends of the loop. With 40 steps all above the
  threshold the condition holds for 15 steps from index 0 (the code's own window test),
  and the result is 1: the selection \<open>range(1, ...)\<close> drops index 0. With 20 steps at zero
  and then 15 steps above the threshold the window at index 20 holds, and the result is
  NaN: the loop \<open>range(len(time) - p)\<close> stops before the last index at which a window of
  \<open>p\<close> steps still fits.
\<close>

theorem cond_a_onset_misses_first_and_last_window:
  "window_sum (map (\<lambda>b::real. b > 1 / 2) (replicate 40 1)) 0 15 = 15
   \<and> li_zhang_cond_a 15 (replicate 40 1) 1 = Inr (Fin 1)
   \<and> window_sum (map (\<lambda>b::real. b > 1 / 2) (replicate 20 0 @ replicate 15 1)) 20 15 = 15
   \<and> li_zhang_cond_a 15 (replicate 20 0 @ replicate 15 1) 1 = Inr NaN"
proof -
  have a: "cond_a_onset 15 (replicate 40 True) = Inr (Fin 1)"
    using cond_a_onset_all_true[of 15 40] by simp
  have b: "cond_a_onset 15 (replicate 20 False @ replicate 15 True) = Inr NaN"
    using cond_a_onset_NaN[of 15 "replicate 20 False @ replicate 15 True"] no_candidate_35
    by simp
  show ?thesis using a b by (simp add: li_zhang_cond_a_def window_sum_def)
qed

text \<open>
  Claim C10. The condition-A onset is never 0: a number returned is an index \<open>i\<close>
  with \<open>1 \<le> i \<le> len(time) - p - 1\<close> whose window of \<open>p\<close> steps passes the code's
  test. Index 0 is not a candidate, even when the condition holds from the first step
  (the witness: 30 steps all true give 1).
\<close>
theorem cond_a_onset_never_zero:
  "cond_a_onset p cond \<noteq> Inr (Fin 0)
   \<and> (cond_a_onset p cond = Inr (Fin v) \<longrightarrow>
        (\<exists>i. v = real i \<and> 1 \<le> i \<and> int i \<le> int (length cond) - p - 1
             \<and> window_sum cond i (nat p) = nat p))"
proof -
  have r: "cond_a_onset p cond = Inr (Fin v) \<Longrightarrow>
        (\<exists>i. v = real i \<and> 1 \<le> i \<and> int i \<le> int (length cond) - p - 1
             \<and> window_sum cond i (nat p) = nat p)" for v
  proof -
    assume h: "cond_a_onset p cond = Inr (Fin v)"
    then have p0: "0 \<le> p" by (auto simp: cond_a_onset_def split: if_splits)
    from cond_a_onset_result[OF h] obtain i where
      i: "v = real i" "cond_a_candidate (nat p) cond i" by auto
    from i(2) have "1 \<le> i" "i + nat p < length cond" "\<forall>j<nat p. cond ! (i + j)"
      by (auto simp: cond_a_candidate_def)
    moreover from this have "window_sum cond i (nat p) = nat p"
      by (simp add: window_sum_iff)
    ultimately show ?thesis using i(1) p0 by (intro exI[of _ i]) auto
  qed
  have "cond_a_onset p cond \<noteq> Inr (Fin 0)"
  proof
    assume "cond_a_onset p cond = Inr (Fin 0)"
    from r[OF this] show False by auto
  qed
  then show ?thesis using r by blast
qed

theorem cond_a_onset_never_zero_witness:
  "cond_a_onset 15 (replicate 30 True) = Inr (Fin 1)
   \<and> cond_a_onset 15 (replicate 30 True) \<noteq> Inr (Fin 0)
   \<and> (\<exists>i. (1::real) = real i \<and> 1 \<le> i \<and> int i \<le> int (length (replicate 30 True)) - 15 - 1
          \<and> window_sum (replicate 30 True) i (nat 15) = nat 15)"
  using cond_a_onset_never_zero[of 15 "replicate 30 True" 1] cond_a_onset_all_true[of 15 30]
  by simp

section \<open>Properties of the discrete Fourier transform\<close>

lemma twiddle_0 [simp]: "twiddle L 0 = 1"
  by (simp add: twiddle_def)

lemma twiddle_add: "twiddle L (s + t) = twiddle L s * twiddle L t"
  by (simp add: twiddle_def cis_mult add_divide_distrib ring_distribs)


lemma twiddle_power: "twiddle L t ^ n = twiddle L (t * int n)"
  by (simp add: twiddle_def DeMoivre algebra_simps)

lemma twiddle_period: "L > 0 \<Longrightarrow> twiddle L (int L * t) = 1"
proof -
  assume "L > 0"
  then have "2 * pi * real_of_int (int L * t) / real L = 2 * pi * real_of_int t"
    by simp
  then show ?thesis unfolding twiddle_def by (simp del: of_int_mult)
qed

lemma twiddle_eq_1_iff:
  assumes "L > 0"
  shows "twiddle L t = 1 \<longleftrightarrow> int L dvd t"
proof
  assume "twiddle L t = 1"
  then have "cos (2 * pi * real_of_int t / real L) = 1"
    by (simp add: twiddle_def complex_eq_iff)
  then obtain n :: int where n: "2 * pi * real_of_int t / real L = of_int n * 2 * pi"
    using cos_one_2pi_int by blast
  have c: "2 * pi \<noteq> (0::real)" by simp
  have "(2 * pi) * (real_of_int t / real L) = 2 * pi * real_of_int t / real L" by simp
  also have "\<dots> = (2 * pi) * of_int n" using n by (simp only: mult_ac)
  finally have "real_of_int t / real L = of_int n"
    using mult_left_cancel[OF c] by blast
  then have "real_of_int t = of_int n * real L" using assms by (simp add: field_simps)
  then have "real_of_int t = real_of_int (n * int L)" by simp
  then have "t = n * int L" using of_int_eq_iff by blast
  then show "int L dvd t" by simp
next
  assume "int L dvd t"
  then obtain q where "t = int L * q" by (auto simp: dvd_def)
  then show "twiddle L t = 1" using twiddle_period[OF assms] by simp
qed

lemma unity_sum:
  assumes "L > 0"
  shows "(\<Sum>n<L. twiddle L (d * int n)) = (if int L dvd d then of_nat L else 0)"
proof (cases "int L dvd d")
  case True
  then have "\<And>n. twiddle L (d * int n) = 1"
    using twiddle_eq_1_iff[OF assms] by simp
  then show ?thesis using True by simp
next
  case False
  then have ne: "twiddle L d \<noteq> 1" using twiddle_eq_1_iff[OF assms] by simp
  have "(\<Sum>n<L. twiddle L (d * int n)) = (\<Sum>n<L. twiddle L d ^ n)"
    by (simp add: twiddle_power)
  also have "\<dots> = (twiddle L d ^ L - 1) / (twiddle L d - 1)"
    using ne by (rule geometric_sum)
  also have "twiddle L d ^ L = 1"
    using twiddle_period[OF assms, of d] by (simp add: twiddle_power mult.commute)
  finally show ?thesis using False by simp
qed

lemma length_fft [simp]: "length (fft xs) = length xs"
  by (simp add: fft_def)

lemma length_ifft [simp]: "length (ifft xs) = length xs"
  by (simp add: ifft_def)

lemma fft_nth: "k < length xs \<Longrightarrow>
  fft xs ! k = (\<Sum>n<length xs. xs ! n * twiddle (length xs) (- (int k * int n)))"
  by (simp add: fft_def)

lemma ifft_nth: "n < length ys \<Longrightarrow>
  ifft ys ! n = (\<Sum>k<length ys. ys ! k * twiddle (length ys) (int k * int n)) / of_nat (length ys)"
  by (simp add: ifft_def)

lemma dvd_diff_small:
  assumes "k < L" "j < L"
  shows "int L dvd (int k - int j) \<longleftrightarrow> k = j"
proof
  assume d: "int L dvd (int k - int j)"
  have "\<bar>int k - int j\<bar> < int L" using assms by linarith
  have "int k - int j = 0"
  proof (rule ccontr)
    assume "int k - int j \<noteq> 0"
    then have "\<bar>int L\<bar> \<le> \<bar>int k - int j\<bar>" using d dvd_imp_le_int by blast
    then show False using \<open>\<bar>int k - int j\<bar> < int L\<close> by simp
  qed
  then show "k = j" by simp
qed simp

lemma ifft_correlate:
  assumes j: "j < length Y"
  shows "(\<Sum>n<length Y. ifft Y ! n * twiddle (length Y) (- (int j * int n))) = Y ! j"
proof -
  let ?L = "length Y"
  have L: "?L > 0" using j by (cases Y) auto
  have "(\<Sum>n<?L. ifft Y ! n * twiddle ?L (- (int j * int n)))
      = (\<Sum>n<?L. (\<Sum>k<?L. Y ! k * twiddle ?L (int k * int n)) / of_nat ?L * twiddle ?L (- (int j * int n)))"
    by (rule sum.cong) (simp_all add: ifft_nth)
  also have "\<dots> = (\<Sum>n<?L. \<Sum>k<?L. Y ! k * twiddle ?L ((int k - int j) * int n) / of_nat ?L)"
  proof (rule sum.cong)
    fix n
    have t: "\<And>k. twiddle ?L (int k * int n) * twiddle ?L (- (int j * int n))
                = twiddle ?L ((int k - int j) * int n)"
      by (simp add: twiddle_add[symmetric] algebra_simps)
    have "(\<Sum>k<?L. Y ! k * twiddle ?L (int k * int n)) / of_nat ?L * twiddle ?L (- (int j * int n))
        = (\<Sum>k<?L. Y ! k * (twiddle ?L (int k * int n) * twiddle ?L (- (int j * int n)))) / of_nat ?L"
      by (simp add: sum_distrib_right mult.assoc)
    also have "\<dots> = (\<Sum>k<?L. Y ! k * twiddle ?L ((int k - int j) * int n) / of_nat ?L)"
      by (simp only: t sum_divide_distrib)
    finally show "(\<Sum>k<?L. Y ! k * twiddle ?L (int k * int n)) / of_nat ?L * twiddle ?L (- (int j * int n))
        = (\<Sum>k<?L. Y ! k * twiddle ?L ((int k - int j) * int n) / of_nat ?L)" .
  qed simp
  also have "\<dots> = (\<Sum>k<?L. \<Sum>n<?L. Y ! k * twiddle ?L ((int k - int j) * int n) / of_nat ?L)"
    by (rule sum.swap)
  also have "\<dots> = (\<Sum>k<?L. Y ! k * (\<Sum>n<?L. twiddle ?L ((int k - int j) * int n)) / of_nat ?L)"
    by (simp add: sum_distrib_left sum_divide_distrib)
  also have "\<dots> = (\<Sum>k<?L. if k = j then Y ! k else 0)"
    by (rule sum.cong) (use L j in \<open>simp_all add: unity_sum dvd_diff_small\<close>)
  also have "\<dots> = Y ! j" using j by (simp add: sum.delta)
  finally show ?thesis .
qed

lemma fft_ifft: "j < length Y \<Longrightarrow> fft (ifft Y) ! j = Y ! j"
  using ifft_correlate[of j Y] by (simp add: fft_nth)

lemma ifft_fft:
  assumes n: "n < length x"
  shows "ifft (fft x) ! n = x ! n"
proof -
  let ?L = "length x"
  have L: "?L > 0" using n by (cases x) auto
  have "(\<Sum>k<?L. fft x ! k * twiddle ?L (int k * int n))
      = (\<Sum>k<?L. \<Sum>m<?L. x ! m * twiddle ?L ((int n - int m) * int k))"
  proof (rule sum.cong)
    fix k assume "k \<in> {..<?L}"
    then have k: "k < ?L" by simp
    have t: "\<And>m. twiddle ?L (- (int k * int m)) * twiddle ?L (int k * int n)
                = twiddle ?L ((int n - int m) * int k)"
      by (simp add: twiddle_add[symmetric] algebra_simps)
    have "fft x ! k * twiddle ?L (int k * int n)
        = (\<Sum>m<?L. x ! m * (twiddle ?L (- (int k * int m)) * twiddle ?L (int k * int n)))"
      using k by (simp add: fft_nth sum_distrib_right mult.assoc)
    then show "fft x ! k * twiddle ?L (int k * int n)
        = (\<Sum>m<?L. x ! m * twiddle ?L ((int n - int m) * int k))"
      by (simp only: t)
  qed simp
  also have "\<dots> = (\<Sum>m<?L. \<Sum>k<?L. x ! m * twiddle ?L ((int n - int m) * int k))"
    by (rule sum.swap)
  also have "\<dots> = (\<Sum>m<?L. x ! m * (\<Sum>k<?L. twiddle ?L ((int n - int m) * int k)))"
    by (simp add: sum_distrib_left)
  also have "\<dots> = (\<Sum>m<?L. if m = n then x ! m * of_nat ?L else 0)"
    by (rule sum.cong) (use L n in \<open>auto simp add: unity_sum dvd_diff_small\<close>)
  also have "\<dots> = x ! n * of_nat ?L" using n by (simp add: sum.delta)
  finally show ?thesis using L n by (simp add: ifft_nth)
qed

section \<open>Properties of the harmonic smoother on one series\<close>

lemma length_truncate [simp]: "length (truncate_harmonics X) = length X"
  by (simp add: truncate_harmonics_def)

lemma length_centred [simp]: "length (centred xs) = length xs"
  by (simp add: centred_def)

lemma length_smooth_series [simp]: "length (smooth_series xs) = length xs"
  by (simp add: smooth_series_def Let_def)

lemma truncate_nth:
  "k < length X \<Longrightarrow> truncate_harmonics X ! k = (if 12 \<le> k \<and> k + 12 < length X then 0 else X ! k)"
  by (simp add: truncate_harmonics_def)

lemma sum_ifft:
  assumes "Y \<noteq> []"
  shows "(\<Sum>n<length Y. ifft Y ! n) = Y ! 0"
proof -
  have "0 < length Y" using assms by simp
  from ifft_correlate[OF this] show ?thesis by simp
qed

lemma sum_list_nth_lessThan: "sum_list xs = (\<Sum>n<length xs. xs ! n)"
  by (simp add: sum_list_sum_nth atLeast0LessThan)

lemma fft_centred_0:
  assumes "xs \<noteq> []"
  shows "fft (centred xs) ! 0 = 0"
proof -
  let ?L = "length xs"
  have L: "0 < ?L" using assms by simp
  have "fft (centred xs) ! 0 = (\<Sum>n<?L. centred xs ! n)"
    using L by (simp add: fft_nth)
  also have "\<dots> = (\<Sum>n<?L. complex_of_real (xs ! n) - complex_of_real (mean xs))"
    by (rule sum.cong) (simp_all add: centred_def)
  also have "\<dots> = complex_of_real (\<Sum>n<?L. xs ! n) - of_nat ?L * complex_of_real (mean xs)"
    by (simp add: sum_subtractf)
  also have "(\<Sum>n<?L. xs ! n) = sum_list xs" by (simp add: sum_list_nth_lessThan)
  also have "complex_of_real (sum_list xs) - of_nat ?L * complex_of_real (mean xs) = 0"
    using L by (simp add: mean_def)
  finally show ?thesis .
qed

lemma smooth_series_nth:
  "n < length xs \<Longrightarrow>
     smooth_series xs ! n = Re (ifft (truncate_harmonics (fft (centred xs))) ! n) + mean xs"
  by (simp add: smooth_series_def Let_def)

lemma mean_smooth_series:
  assumes "xs \<noteq> []"
  shows "mean (smooth_series xs) = mean xs"
proof -
  let ?L = "length xs"
  let ?Y = "truncate_harmonics (fft (centred xs))"
  have L: "0 < ?L" using assms by simp
  have Yne: "?Y \<noteq> []" using assms by (metis length_0_conv length_truncate length_fft length_centred)
  have lY: "length ?Y = ?L" by simp
  have Y0: "?Y ! 0 = 0"
    using L fft_centred_0[OF assms] by (simp add: truncate_nth)
  have "sum_list (smooth_series xs) = (\<Sum>n<?L. smooth_series xs ! n)"
    by (simp add: sum_list_nth_lessThan)
  also have "\<dots> = (\<Sum>n<?L. Re (ifft ?Y ! n) + mean xs)"
    by (rule sum.cong) (simp_all add: smooth_series_nth)
  also have "\<dots> = Re (\<Sum>n<?L. ifft ?Y ! n) + real ?L * mean xs"
    by (simp add: sum.distrib)
  also have "(\<Sum>n<?L. ifft ?Y ! n) = ?Y ! 0"
    using sum_ifft[OF Yne] by (simp only: lY)
  finally have "sum_list (smooth_series xs) = real ?L * mean xs" using Y0 by simp
  then show ?thesis using L by (simp add: mean_def[of "smooth_series xs"])
qed








lemma smooth_series_short:
  assumes "length xs \<le> 24"
  shows "smooth_series xs = xs"
proof (rule nth_equalityI)
  show "length (smooth_series xs) = length xs" by simp
next
  fix n assume "n < length (smooth_series xs)"
  then have n: "n < length xs" by simp
  have t: "truncate_harmonics (fft (centred xs)) = fft (centred xs)"
    using assms by (auto simp: truncate_harmonics_def intro!: nth_equalityI)
  have "smooth_series xs ! n = Re (ifft (fft (centred xs)) ! n) + mean xs"
    using n by (simp only: smooth_series_nth t)
  also have "ifft (fft (centred xs)) ! n = centred xs ! n"
    using n by (simp add: ifft_fft)
  also have "centred xs ! n = complex_of_real (xs ! n - mean xs)"
    using n by (simp add: centred_def)
  finally show "smooth_series xs ! n = xs ! n" by simp
qed

subsection \<open>Series with missing values\<close>

lemma present_map_Some [simp]: "present (map Some ys) = ys"
  by (induction ys) (simp_all add: present_def)

lemma present_replicate_None [simp]: "present (replicate n None) = []"
  by (simp add: present_def)

lemma nanmean_map_Some: "ys \<noteq> [] \<Longrightarrow> nanmean (map Some ys) = Some (mean ys)"
  by (simp add: nanmean_def)

lemma nanmean_all_None: "nanmean (replicate n None) = None"
  by (simp add: nanmean_def)

lemma length_nan_fft [simp]: "length (nan_fft xs) = length xs"
  by (simp add: nan_fft_def)

lemma length_nan_ifft [simp]: "length (nan_ifft xs) = length xs"
  by (simp add: nan_ifft_def)

lemma length_nan_truncate [simp]: "length (nan_truncate X) = length X"
  by (simp add: nan_truncate_def)

lemma length_smooth_lane [simp]: "length (smooth_lane xs) = length xs"
  by (simp add: smooth_lane_def Let_def)

lemma None_notin_map_Some [simp]: "None \<notin> set (map Some ys)"
  by auto

lemma nan_fft_map_Some: "nan_fft (map Some X) = map Some (fft X)"
  by (simp add: nan_fft_def comp_def)

lemma nan_ifft_map_Some: "nan_ifft (map Some X) = map Some (ifft X)"
  by (simp add: nan_ifft_def comp_def)

lemma nan_truncate_map_Some: "nan_truncate (map Some X) = map Some (truncate_harmonics X)"
  by (rule nth_equalityI) (simp_all add: nan_truncate_def truncate_harmonics_def)

lemma smooth_lane_map_Some: "smooth_lane (map Some ys) = map Some (smooth_series ys)"
proof (cases "ys = []")
  case True
  then show ?thesis
    by (simp add: smooth_lane_def smooth_series_def Let_def nan_fft_def nan_ifft_def
          nan_truncate_def truncate_harmonics_def fft_def ifft_def centred_def)
next
  case False
  have c: "map (\<lambda>x. case (x, Some (mean ys)) of
                       (Some v, Some m) \<Rightarrow> Some (complex_of_real (v - m))
                     | _ \<Rightarrow> None) (map Some ys) = map Some (centred ys)"
    by (simp add: centred_def comp_def)
  have d: "map (\<lambda>c. case (c, Some (mean ys)) of
                       (Some z, Some m) \<Rightarrow> Some (Re z + m)
                     | _ \<Rightarrow> None) (map Some Z) = map Some (map (\<lambda>c. Re c + mean ys) Z)" for Z
    by (simp add: comp_def)
  show ?thesis
    unfolding smooth_lane_def Let_def nanmean_map_Some[OF False] c nan_fft_map_Some
      nan_truncate_map_Some nan_ifft_map_Some d
    by (simp add: smooth_series_def Let_def)
qed

lemma smooth_lane_nan:
  assumes "None \<in> set xs"
  shows "smooth_lane xs = replicate (length xs) None"
proof -
  let ?m = "nanmean xs"
  let ?p = "map (\<lambda>x. case (x, ?m) of
                       (Some v, Some m) \<Rightarrow> Some (complex_of_real (v - m))
                     | _ \<Rightarrow> None) xs"
  have len: "0 < length xs" using assms by (cases xs) auto
  have "None \<in> set ?p" using assms by (force simp: image_iff)
  then have f: "nan_fft ?p = replicate (length xs) None" by (simp add: nan_fft_def)
  have "nan_truncate (replicate (length xs) None) ! 0 = (None :: complex option)"
    using len by (simp add: nan_truncate_def)
  moreover have "0 < length (nan_truncate (replicate (length xs) (None :: complex option)))"
    using len by simp
  ultimately have "None \<in> set (nan_truncate (replicate (length xs) (None :: complex option)))"
    by (metis nth_mem)
  then have i: "nan_ifft (nan_truncate (replicate (length xs) None)) = replicate (length xs) None"
    by (simp add: nan_ifft_def)
  show ?thesis unfolding smooth_lane_def Let_def f i by simp
qed

lemma map_Some_the: "None \<notin> set xs \<Longrightarrow> map Some (map the xs) = xs"
  by (induction xs) auto

lemma smooth_lane_present:
  assumes "None \<notin> set xs"
  shows "smooth_lane xs = map Some (smooth_series (map the xs))"
proof -
  have "xs = map Some (map the xs)" using assms by (rule map_Some_the[symmetric])
  then have "smooth_lane xs = smooth_lane (map Some (map the xs))" by (rule arg_cong)
  also have "\<dots> = map Some (smooth_series (map the xs))" by (rule smooth_lane_map_Some)
  finally show ?thesis .
qed

lemma smooth_lane_cases:
  "smooth_lane xs =
     (if None \<in> set xs then replicate (length xs) None
      else map Some (smooth_series (map the xs)))"
  by (simp add: smooth_lane_nan smooth_lane_present)

lemma nanmean_present:
  assumes "xs \<noteq> []" "None \<notin> set xs"
  shows "nanmean xs = Some (mean (map the xs))"
proof -
  have "xs = map Some (map the xs)" using assms(2) by (rule map_Some_the[symmetric])
  then have "nanmean xs = nanmean (map Some (map the xs))" by (rule arg_cong)
  also have "\<dots> = Some (mean (map the xs))"
    by (rule nanmean_map_Some) (use assms(1) in simp)
  finally show ?thesis .
qed

lemma nanmean_smooth_lane:
  assumes "xs \<noteq> []" "None \<notin> set xs"
  shows "nanmean (smooth_lane xs) = nanmean xs" and "nanmean xs = Some (mean (map the xs))"
proof -
  let ?ys = "map the xs"
  have ne: "?ys \<noteq> []" using assms(1) by simp
  have ne': "smooth_series ?ys \<noteq> []" using ne by (metis length_0_conv length_smooth_series)
  have "nanmean (smooth_lane xs) = nanmean (map Some (smooth_series ?ys))"
    by (simp only: smooth_lane_present[OF assms(2)])
  also have "\<dots> = Some (mean (smooth_series ?ys))" by (rule nanmean_map_Some[OF ne'])
  also have "\<dots> = Some (mean ?ys)" by (simp only: mean_smooth_series[OF ne])
  finally have a: "nanmean (smooth_lane xs) = Some (mean ?ys)" .
  have b: "nanmean xs = Some (mean ?ys)" by (rule nanmean_present[OF assms])
  show "nanmean (smooth_lane xs) = nanmean xs" using a b by simp
  show "nanmean xs = Some (mean (map the xs))" by (rule b)
qed

lemma smooth_lane_short:
  assumes "length ys \<le> 24"
  shows "smooth_lane (map Some ys) = map Some ys"
  by (simp add: smooth_lane_map_Some smooth_series_short[OF assms])

section \<open>Properties of arrays and masks\<close>

lemma lane_length [simp]: "length (lane ax a i j k) = axis_len a ax"
  by (simp add: lane_def axis_len_def)

lemma map_nth_upt: "length xs = n \<Longrightarrow> map (\<lambda>t. xs ! t) [0..<n] = xs"
  by (metis map_nth)

lemma lane_along:
  assumes len: "\<And>xs. length (f xs) = length xs"
  shows "lane ax (along ax f a) i j k = f (lane ax a i j k)"
proof -
  have l: "length (f (lane ax a i j k)) = axis_len a ax" by (simp add: len)
  consider "ax = 0" | "ax = 1" | "ax \<noteq> 0 \<and> ax \<noteq> 1" by blast
  then show ?thesis
  proof cases
    case 1
    have "\<And>t. lane 0 a t j k = lane 0 a i j k" by (simp add: lane_def)
    then have "lane 0 (along 0 f a) i j k = map (\<lambda>t. f (lane 0 a i j k) ! t) [0..<n0 a]"
      by (simp add: lane_def along_def pos_def)
    also have "\<dots> = f (lane 0 a i j k)"
      using l 1 by (intro map_nth_upt) (simp add: axis_len_def)
    finally show ?thesis using 1 by simp
  next
    case 2
    have "\<And>t. lane 1 a i t k = lane 1 a i j k" by (simp add: lane_def)
    then have "lane 1 (along 1 f a) i j k = map (\<lambda>t. f (lane 1 a i j k) ! t) [0..<n1 a]"
      by (simp add: lane_def along_def pos_def)
    also have "\<dots> = f (lane 1 a i j k)"
      using l 2 by (intro map_nth_upt) (simp add: axis_len_def)
    finally show ?thesis using 2 by simp
  next
    case 3
    have "\<And>t. lane ax a i j t = lane ax a i j k" using 3 by (simp add: lane_def)
    then have "lane ax (along ax f a) i j k = map (\<lambda>t. f (lane ax a i j k) ! t) [0..<n2 a]"
      using 3 by (simp add: lane_def along_def pos_def)
    also have "\<dots> = f (lane ax a i j k)"
      using l 3 by (intro map_nth_upt) (simp add: axis_len_def)
    finally show ?thesis .
  qed
qed

lemma axis_len_along [simp]: "axis_len (along ax f a) b = axis_len a b"
  by (simp add: axis_len_def along_def)

lemma length_npi_series [simp]: "length (npi_series xs) = length xs"
  by (simp add: npi_series_def Let_def)

lemma length_masked_less [simp]: "length (masked_less xs t) = length xs"
  by (simp add: masked_less_def)

lemma masked_less_nth [simp]:
  "i < length xs \<Longrightarrow> masked_less xs t ! i = (xs ! i, fl_less (xs ! i) t)"
  by (simp add: masked_less_def)

subsection \<open>Edges of a mask\<close>

lemma sorted_le_last: "sorted xs \<Longrightarrow> x \<in> set xs \<Longrightarrow> (x::nat) \<le> last xs"
  by (induction xs) auto

lemma notmasked_edges_None_iff:
  "notmasked_edges m = None \<longleftrightarrow> (\<forall>i<length m. snd (m ! i))"
proof -
  have "filter (\<lambda>i. \<not> snd (m ! i)) [0..<length m] = [] \<longleftrightarrow> (\<forall>i<length m. snd (m ! i))"
    by (auto simp: filter_empty_conv)
  then show ?thesis
    by (auto simp: notmasked_edges_def split: list.splits)
qed

lemma notmasked_edges_Some:
  assumes "notmasked_edges m = Some (f, l)"
  shows "f < length m \<and> \<not> snd (m ! f) \<and> (\<forall>i<f. snd (m ! i))
       \<and> l < length m \<and> \<not> snd (m ! l) \<and> (\<forall>i. l < i \<and> i < length m \<longrightarrow> snd (m ! i))"
proof -
  let ?xs = "filter (\<lambda>i. \<not> snd (m ! i)) [0..<length m]"
  from assms obtain rest where xs: "?xs = f # rest" and l: "l = last (f # rest)"
    by (auto simp: notmasked_edges_def split: list.splits)
  have s: "sorted ?xs" by (simp add: sorted_wrt_filter)
  have set: "set ?xs = {i. i < length m \<and> \<not> snd (m ! i)}" by auto
  have f_in: "f \<in> set ?xs" using xs by simp
  have l_in: "l \<in> set ?xs" using xs l by (metis last_in_set list.distinct(1))
  have f_min: "\<forall>x\<in>set ?xs. f \<le> x" using s xs by (metis list.set_intros(1) set_ConsD sorted_simps(2) order_refl)
  have l_max: "\<forall>x\<in>set ?xs. x \<le> l"
    using s xs l by (metis sorted_le_last)
  show ?thesis
  proof (intro conjI allI impI)
    show "f < length m" "\<not> snd (m ! f)" using f_in set by auto
    show "l < length m" "\<not> snd (m ! l)" using l_in set by auto
  next
    fix i assume "i < f"
    show "snd (m ! i)"
    proof (rule ccontr)
      assume "\<not> snd (m ! i)"
      moreover have "i < length m" using \<open>i < f\<close> f_in set by auto
      ultimately have "i \<in> set ?xs" using set by blast
      then show False using f_min \<open>i < f\<close> by auto
    qed
  next
    fix i assume a: "l < i \<and> i < length m"
    show "snd (m ! i)"
    proof (rule ccontr)
      assume "\<not> snd (m ! i)"
      then have "i \<in> set ?xs" using a set by blast
      then show False using l_max a by auto
    qed
  qed
qed

lemma notmasked_edges_all_unmasked:
  assumes "m \<noteq> []" "\<forall>i<length m. \<not> snd (m ! i)"
  shows "notmasked_edges m = Some (0, length m - 1)"
proof -
  have ne: "notmasked_edges m \<noteq> None"
    using assms by (auto simp: notmasked_edges_None_iff)
  then obtain f l where fl: "notmasked_edges m = Some (f, l)" by (cases "notmasked_edges m") auto
  from notmasked_edges_Some[OF fl] have
    p: "\<forall>i<f. snd (m ! i)" "f < length m" "l < length m" "\<forall>i. l < i \<and> i < length m \<longrightarrow> snd (m ! i)"
    by auto
  have "f = 0"
  proof (rule ccontr)
    assume "f \<noteq> 0"
    then have "0 < f" by simp
    then have "snd (m ! 0)" using p(1) by blast
    moreover have "0 < length m" using assms by simp
    ultimately show False using assms(2) by blast
  qed
  moreover have "l = length m - 1"
  proof (rule ccontr)
    assume "l \<noteq> length m - 1"
    then have "l < length m - 1 \<and> length m - 1 < length m" using p(3) by linarith
    then have "snd (m ! (length m - 1))" using p(4) by blast
    moreover have "length m - 1 < length m" using assms by simp
    ultimately show False using assms(2) by blast
  qed
  ultimately show ?thesis using fl by simp
qed

section \<open>Properties of the threshold detection\<close>

lemma axis_len_0 [simp]: "axis_len a 0 = n0 a"
  by (simp add: axis_len_def)

lemma lane0_nth: "t < n0 x \<Longrightarrow> lane 0 x i j k ! t = elem x t j k"
  by (simp add: lane_def)

lemma length_lane0 [simp]: "length (lane 0 x i j k) = n0 x"
  by (simp add: lane_def)

lemma edges_None_iff:
  "notmasked_edges (masked_less (lane 0 x 0 j k) T) = None
     \<longleftrightarrow> (\<forall>t<n0 x. fl_less (elem x t j k) T)"
  by (simp add: notmasked_edges_None_iff lane0_nth)

lemma edges_all_unmasked:
  assumes "0 < n0 x" "\<forall>t<n0 x. \<not> fl_less (elem x t j k) T"
  shows "notmasked_edges (masked_less (lane 0 x 0 j k) T) = Some (0, n0 x - 1)"
proof -
  let ?m = "masked_less (lane 0 x 0 j k) T"
  have "?m \<noteq> []" using assms(1) by (metis length_masked_less length_lane0 length_0_conv less_numeral_extra(3))
  moreover have "\<forall>i<length ?m. \<not> snd (?m ! i)" using assms(2) by (simp add: lane0_nth)
  ultimately have "notmasked_edges ?m = Some (0, length ?m - 1)"
    by (rule notmasked_edges_all_unmasked)
  then show ?thesis by simp
qed

lemma cell_onset_NaN_iff:
  "cell_onset T x j k = NaN \<longleftrightarrow> (\<forall>t<n0 x. fl_less (elem x t j k) T)"
  unfolding edges_None_iff[symmetric] cell_onset_def
  by (simp split: option.splits)

lemma cell_withdrawal_NaN_iff:
  "cell_withdrawal T x j k = NaN \<longleftrightarrow> (\<forall>t<n0 x. fl_less (elem x t j k) T)"
  unfolding edges_None_iff[symmetric] cell_withdrawal_def
  by (simp split: option.splits)

lemma cell_edges_found:
  assumes "\<not> (\<forall>t<n0 x. fl_less (elem x t j k) T)"
  shows "\<exists>a b. cell_onset T x j k = Fin (real a + 1) \<and> cell_withdrawal T x j k = Fin (real b + 1)
           \<and> a \<le> b \<and> b < n0 x
           \<and> \<not> fl_less (elem x a j k) T \<and> (\<forall>t<a. fl_less (elem x t j k) T)
           \<and> \<not> fl_less (elem x b j k) T \<and> (\<forall>t. b < t \<and> t < n0 x \<longrightarrow> fl_less (elem x t j k) T)"
proof -
  let ?m = "masked_less (lane 0 x 0 j k) T"
  from assms have "notmasked_edges ?m \<noteq> None" by (simp only: edges_None_iff) simp
  then obtain a b where ab: "notmasked_edges ?m = Some (a, b)" by (cases "notmasked_edges ?m") auto
  from notmasked_edges_Some[OF ab] have
    q: "a < n0 x" "\<not> snd (?m ! a)" "\<And>i. i < a \<Longrightarrow> snd (?m ! i)"
       "b < n0 x" "\<not> snd (?m ! b)" "\<And>i. b < i \<Longrightarrow> i < n0 x \<Longrightarrow> snd (?m ! i)"
    by auto
  have a1: "\<not> fl_less (elem x a j k) T" using q(1,2) by (simp add: lane0_nth)
  have b1: "\<not> fl_less (elem x b j k) T" using q(4,5) by (simp add: lane0_nth)
  have a2: "\<forall>t<a. fl_less (elem x t j k) T"
  proof (intro allI impI)
    fix t assume ta: "t < a"
    then have tn: "t < n0 x" using q(1) by simp
    from q(3)[OF ta] tn show "fl_less (elem x t j k) T" by (simp add: lane0_nth)
  qed
  have b2: "\<forall>t. b < t \<and> t < n0 x \<longrightarrow> fl_less (elem x t j k) T"
  proof (intro allI impI)
    fix t assume h: "b < t \<and> t < n0 x"
    then have "snd (?m ! t)" using q(6) by blast
    then show "fl_less (elem x t j k) T" using h by (simp add: lane0_nth)
  qed
  have "a \<le> b"
  proof (rule ccontr)
    assume "\<not> a \<le> b"
    then have "b < a" by simp
    then show False using a2 b1 by blast
  qed
  moreover have "cell_onset T x j k = Fin (real a + 1)" by (simp add: cell_onset_def ab)
  moreover have "cell_withdrawal T x j k = Fin (real b + 1)" by (simp add: cell_withdrawal_def ab)
  ultimately show ?thesis using a1 a2 b1 b2 q(4) by blast
qed

lemma season_edges_Inr:
  assumes "season_edges T ds x latdim londim = Inr r"
  shows "0 < n0 x"
    and "onset_pentad r = cell_onset T x"
    and "withdrawal_pentad r = cell_withdrawal T x"
    and "peak_pentad r = cell_peak T x"
    and "duration r = (\<lambda>j k. fl_sub (cell_withdrawal T x j k) (cell_onset T x j k))"
  using assms by (auto simp: season_edges_def split: if_splits option.splits)

subsection \<open>The argmax of numpy\<close>

lemma fl_le_refl: "x \<noteq> NaN \<Longrightarrow> fl_le x x"
  by (cases x) auto

lemma fl_le_total: "x \<noteq> NaN \<Longrightarrow> y \<noteq> NaN \<Longrightarrow> fl_le x y \<or> fl_le y x"
  by (cases x; cases y) auto

lemma fl_le_trans: "fl_le x y \<Longrightarrow> fl_le y z \<Longrightarrow> fl_le x z"
  by (cases x; cases y; cases z) auto

lemma argmax_from_bound:
  "b < i \<Longrightarrow> argmax_from b mp i xs < i + length xs"
proof (induction xs arbitrary: b mp i)
  case Nil
  then show ?case by simp
next
  case (Cons a xs)
  have 1: "argmax_from i a (Suc i) xs < Suc i + length xs" by (rule Cons.IH) simp
  have 2: "argmax_from b mp (Suc i) xs < Suc i + length xs" by (rule Cons.IH) (use Cons.prems in simp)
  show ?case using 1 2 Cons.prems by simp
qed

lemma argmax_bound: "xs \<noteq> [] \<Longrightarrow> argmax xs < length xs"
  using argmax_from_bound[of 0 1] by (cases xs) (auto simp: argmax_def)

lemma argmax_from_spec:
  assumes "NaN \<notin> set ws" "i \<le> length ws" "b < i"
    and "\<forall>t<i. fl_le (ws ! t) (ws ! b)" "\<forall>t<b. \<not> fl_le (ws ! b) (ws ! t)"
  shows "(\<forall>t<length ws. fl_le (ws ! t) (ws ! argmax_from b (ws ! b) i (drop i ws)))
       \<and> (\<forall>t<argmax_from b (ws ! b) i (drop i ws).
             \<not> fl_le (ws ! argmax_from b (ws ! b) i (drop i ws)) (ws ! t))"
  using assms
proof (induction "length ws - i" arbitrary: i b)
  case 0
  then have "i = length ws" by simp
  then show ?case using 0 by simp
next
  case (Suc n)
  then have il: "i < length ws" by linarith
  have d: "drop i ws = ws ! i # drop (Suc i) ws" using il by (simp add: Cons_nth_drop_Suc)
  have nn: "\<And>t. t < length ws \<Longrightarrow> ws ! t \<noteq> NaN" using Suc.prems(1) by (metis nth_mem)
  have bl: "b < length ws" using Suc.prems(3) il by simp
  have n: "n = length ws - Suc i" using Suc.hyps(2) by simp
  show ?case
  proof (cases "fl_le (ws ! i) (ws ! b)")
    case True
    have st: "argmax_from b (ws ! b) i (drop i ws) = argmax_from b (ws ! b) (Suc i) (drop (Suc i) ws)"
      using True nn[OF bl] by (simp add: d)
    have "\<forall>t<Suc i. fl_le (ws ! t) (ws ! b)" using True Suc.prems(4) by (auto simp: less_Suc_eq)
    from Suc.hyps(1)[OF n Suc.prems(1) _ _ this Suc.prems(5)] il Suc.prems(3)
    show ?thesis unfolding st by simp
  next
    case False
    have st: "argmax_from b (ws ! b) i (drop i ws) = argmax_from i (ws ! i) (Suc i) (drop (Suc i) ws)"
      using False nn[OF bl] by (simp add: d)
    have bi: "fl_le (ws ! b) (ws ! i)" using False fl_le_total[OF nn[OF il] nn[OF bl]] by blast
    have a: "\<forall>t<Suc i. fl_le (ws ! t) (ws ! i)"
    proof (intro allI impI)
      fix t assume "t < Suc i"
      then consider "t < i" | "t = i" by linarith
      then show "fl_le (ws ! t) (ws ! i)"
      proof cases
        case 1 then show ?thesis using Suc.prems(4) bi fl_le_trans by blast
      next
        case 2 then show ?thesis using fl_le_refl[OF nn[OF il]] by simp
      qed
    qed
    have b: "\<forall>t<i. \<not> fl_le (ws ! i) (ws ! t)"
    proof (intro allI impI notI)
      fix t assume "t < i" "fl_le (ws ! i) (ws ! t)"
      then have "fl_le (ws ! i) (ws ! b)" using Suc.prems(4) fl_le_trans by blast
      then show False using False by simp
    qed
    from Suc.hyps(1)[OF n Suc.prems(1) _ _ a b] il
    show ?thesis unfolding st by simp
  qed
qed

lemma argmax_first_maximum:
  assumes "NaN \<notin> set ws" "ws \<noteq> []"
  shows "(\<forall>t<length ws. fl_le (ws ! t) (ws ! argmax ws))
       \<and> (\<forall>t<argmax ws. \<not> fl_le (ws ! argmax ws) (ws ! t))"
proof -
  obtain w rest where c: "ws = w # rest" using assms(2) by (cases ws) auto
  have w: "w \<noteq> NaN" using assms(1) c by auto
  have a: "argmax ws = argmax_from 0 (ws ! 0) 1 (drop 1 ws)" by (simp add: argmax_def c)
  have "\<forall>t<1. fl_le (ws ! t) (ws ! 0)" using fl_le_refl[OF w] c by simp
  from argmax_from_spec[OF assms(1) _ _ this] c
  show ?thesis unfolding a by simp
qed

lemma length_filled [simp]: "length (filled m) = length m"
  by (simp add: filled_def)

lemma cell_peak_eq:
  "cell_peak T x j k =
     (if ma_argmax (masked_less (lane 0 x 0 j k) T) = 0 then NaN
      else Fin (real (ma_argmax (masked_less (lane 0 x 0 j k) T)) + 1))"
  by (simp add: cell_peak_def Let_def)

lemma ma_argmax_bound:
  "0 < n0 x \<Longrightarrow> ma_argmax (masked_less (lane 0 x 0 j k) T) < n0 x"
proof -
  assume "0 < n0 x"
  then have "filled (masked_less (lane 0 x 0 j k) T) \<noteq> []"
    by (metis length_filled length_masked_less length_lane0 length_0_conv less_numeral_extra(3))
  from argmax_bound[OF this] show ?thesis by (simp add: ma_argmax_def)
qed

subsection \<open>The smoother along an axis\<close>

lemma elem_along: "elem (along ax f a) i j k = f (lane ax a i j k) ! pos ax i j k"
  by (simp add: along_def)

lemma n_along [simp]: "n0 (along ax f a) = n0 a" "n1 (along ax f a) = n1 a" "n2 (along ax f a) = n2 a"
  by (simp_all add: along_def)

lemma n_p_smooth [simp]:
  "n0 (p_smooth p ax) = n0 p" "n1 (p_smooth p ax) = n1 p" "n2 (p_smooth p ax) = n2 p"
  by (simp_all add: p_smooth_def)

lemma n_npi [simp]: "n0 (npi p ax) = n0 p" "n1 (npi p ax) = n1 p" "n2 (npi p ax) = n2 p"
  by (simp_all add: npi_def)

lemma n_rain_rel [simp]:
  "n0 (rain_rel p m ax) = n0 p" "n1 (rain_rel p m ax) = n1 p" "n2 (rain_rel p m ax) = n2 p"
  by (simp_all add: rain_rel_def)

lemma lane_p_smooth: "lane ax (p_smooth p ax) i j k = smooth_lane (lane ax p i j k)"
  unfolding p_smooth_def by (rule lane_along) simp

lemma lane_npi: "lane ax (npi p ax) i j k = npi_series (smooth_lane (lane ax p i j k))"
  unfolding npi_def by (simp add: lane_along lane_p_smooth)

lemma lane_nonempty: "0 < axis_len a ax \<Longrightarrow> lane ax a i j k \<noteq> []"
  by (metis lane_length length_0_conv less_numeral_extra(3))

subsection \<open>Spectrum of the smoothed series\<close>






subsection \<open>Onset, withdrawal and duration\<close>

lemma season_edges_ok:
  assumes "0 < n0 x" "dim_len ds x latdim = Some (n1 x)" "dim_len ds x londim = Some (n2 x)"
  shows "season_edges T ds x latdim londim =
           Inr \<lparr>onset_pentad = cell_onset T x, withdrawal_pentad = cell_withdrawal T x,
                peak_pentad = cell_peak T x,
                duration = (\<lambda>j k. fl_sub (cell_withdrawal T x j k) (cell_onset T x j k))\<rparr>"
proof -
  have "\<not> list_ex (\<lambda>j. list_ex (\<lambda>k.
                       notmasked_edges (masked_less (lane 0 x 0 j k) T) \<noteq> None
                       \<and> (n1 x \<le> j \<or> n2 x \<le> k)) [0..<n2 x]) [0..<n1 x]"
    by (auto simp: list_ex_iff)
  then show ?thesis using assms by (simp add: season_edges_def)
qed

lemma dim_len_pentad_lat_lon [simp]:
  "dim_len pentad_lat_lon x ''lat'' = Some (n1 x)"
  "dim_len pentad_lat_lon x ''lon'' = Some (n2 x)"
  "get_axis_num pentad_lat_lon ''pentad'' = Some 0"
  by (simp_all add: dim_len_def get_axis_num_def pentad_lat_lon_def axis_len_def)

lemma dim_len_lat_lon_pentad [simp]:
  "dim_len lat_lon_pentad x ''lat'' = Some (n0 x)"
  "dim_len lat_lon_pentad x ''lon'' = Some (n1 x)"
  "get_axis_num lat_lon_pentad ''pentad'' = Some 2"
  by (simp_all add: dim_len_def get_axis_num_def lat_lon_pentad_def axis_len_def)

lemma row_of_cells_simps [simp]:
  "n0 (row_of_cells css) = length (hd css)" "n1 (row_of_cells css) = 1"
  "n2 (row_of_cells css) = length css" "elem (row_of_cells css) t j k = css ! k ! t"
  by (simp_all add: row_of_cells_def)

lemma fl_le_not_less: "fl_le (Fin T) v \<Longrightarrow> \<not> fl_less v T"
  by (cases v) auto

text \<open>
  Claim C5, amended. For every cell of a returned result: when every value of the
  cell's series along axis 0 is below the threshold \<open>T\<close>, onset, withdrawal and duration
  are NaN; when every value is a number at or above \<open>T\<close>, the onset is 1 and the
  withdrawal is the length of axis 0.
\<close>

theorem threshold_edges:
  assumes "season_edges T ds x latdim londim = Inr r"
  shows "((\<forall>t<n0 x. fl_less (elem x t j k) T) \<longrightarrow>
            onset_pentad r j k = NaN \<and> withdrawal_pentad r j k = NaN \<and> duration r j k = NaN)
       \<and> ((\<forall>t<n0 x. fl_le (Fin T) (elem x t j k)) \<longrightarrow>
            onset_pentad r j k = Fin 1 \<and> withdrawal_pentad r j k = Fin (real (n0 x)))"
proof -
  note r = season_edges_Inr[OF assms]
  have a: "onset_pentad r j k = NaN \<and> withdrawal_pentad r j k = NaN \<and> duration r j k = NaN"
    if h: "\<forall>t<n0 x. fl_less (elem x t j k) T"
  proof -
    have "cell_onset T x j k = NaN" "cell_withdrawal T x j k = NaN"
      using h by (simp_all only: cell_onset_NaN_iff cell_withdrawal_NaN_iff)
    then show ?thesis by (simp add: r(2,3,5))
  qed
  have b: "onset_pentad r j k = Fin 1 \<and> withdrawal_pentad r j k = Fin (real (n0 x))"
    if h: "\<forall>t<n0 x. fl_le (Fin T) (elem x t j k)"
  proof -
    have "\<forall>t<n0 x. \<not> fl_less (elem x t j k) T" using h fl_le_not_less by blast
    from edges_all_unmasked[OF r(1) this]
    have "cell_onset T x j k = Fin 1" "cell_withdrawal T x j k = Fin (real (n0 x - 1) + 1)"
      by (simp_all add: cell_onset_def cell_withdrawal_def)
    moreover have "real (n0 x - 1) + 1 = real (n0 x)" using r(1) by (simp add: of_nat_diff)
    ultimately show ?thesis by (simp add: r(2,3))
  qed
  show ?thesis using a b by blast
qed

theorem threshold_edges_witness:
  "onset_at (season_edges 5 pentad_lat_lon (row_of_cells [[Fin 0, Fin 0, Fin 0], [Fin 7, Fin 7, Fin 7]]) ''lat'' ''lon'') 0 0 = Some NaN
   \<and> withdrawal_at (season_edges 5 pentad_lat_lon (row_of_cells [[Fin 0, Fin 0, Fin 0], [Fin 7, Fin 7, Fin 7]]) ''lat'' ''lon'') 0 0 = Some NaN
   \<and> duration_at (season_edges 5 pentad_lat_lon (row_of_cells [[Fin 0, Fin 0, Fin 0], [Fin 7, Fin 7, Fin 7]]) ''lat'' ''lon'') 0 0 = Some NaN
   \<and> onset_at (season_edges 5 pentad_lat_lon (row_of_cells [[Fin 0, Fin 0, Fin 0], [Fin 7, Fin 7, Fin 7]]) ''lat'' ''lon'') 0 1 = Some (Fin 1)
   \<and> withdrawal_at (season_edges 5 pentad_lat_lon (row_of_cells [[Fin 0, Fin 0, Fin 0], [Fin 7, Fin 7, Fin 7]]) ''lat'' ''lon'') 0 1 = Some (Fin 3)"
proof -
  let ?x = "row_of_cells [[Fin 0, Fin 0, Fin 0], [Fin 7, Fin 7, Fin 7]]"
  obtain r where E: "season_edges 5 pentad_lat_lon ?x ''lat'' ''lon'' = Inr r"
    using season_edges_ok[of ?x pentad_lat_lon "''lat''" "''lon''" 5] by simp
  have lo: "\<forall>t<n0 ?x. fl_less (elem ?x t 0 0) 5" by (simp add: less_Suc_eq numeral_3_eq_3)
  have hi: "\<forall>t<n0 ?x. fl_le (Fin 5) (elem ?x t 0 1)" by (simp add: less_Suc_eq numeral_3_eq_3)
  have n: "real (n0 ?x) = 3" by simp
  from threshold_edges[OF E, of 0 0] lo
  have F: "onset_pentad r 0 0 = NaN" "withdrawal_pentad r 0 0 = NaN" "duration r 0 0 = NaN"
    by blast+
  from threshold_edges[OF E, of 0 1] hi
  have G: "onset_pentad r 0 1 = Fin 1" "withdrawal_pentad r 0 1 = Fin (real (n0 ?x))"
    by blast+
  show ?thesis
    unfolding onset_at_def withdrawal_at_def duration_at_def E
    by (simp only: sum.case F G n simp_thms)
qed

lemma lane_pos:
  "i < n0 a \<Longrightarrow> j < n1 a \<Longrightarrow> k < n2 a \<Longrightarrow> lane ax a i j k ! pos ax i j k = elem a i j k"
  by (simp add: lane_def pos_def)

lemma elem_npi:
  "elem (npi p ax) i j k = npi_series (smooth_lane (lane ax p i j k)) ! pos ax i j k"
  by (simp add: npi_def elem_along lane_p_smooth)

lemma elem_rain_rel:
  "elem (rain_rel p m ax) i j k =
     (case smooth_lane (lane ax p i j k) ! pos ax i j k of
        None \<Rightarrow> NaN
      | Some v \<Rightarrow> Fin (v - m i j k))"
  by (simp add: rain_rel_def p_smooth_def elem_along)

lemma upt_2: "[0..<2] = [0, Suc 0]"
  by (simp add: upt_rec numeral_2_eq_2)

lemma edges_two_unmasked: "notmasked_edges [(a, False), (b, False)] = Some (0, 1)"
  by (simp add: notmasked_edges_def upt_2)

lemma edges_two_masked: "notmasked_edges [(a, True), (b, True)] = None"
  by (simp add: notmasked_edges_def upt_2)

lemma edges_second_unmasked: "notmasked_edges [(a, True), (b, False)] = Some (1, 1)"
  by (simp add: notmasked_edges_def upt_2)

lemma npi_series_01: "npi_series [Some 0, Some 1] = [Fin 0, Fin 1]"
  by (simp add: npi_series_def Let_def present_def)

lemma npi_series_00: "npi_series [Some 0, Some 0] = [NaN, NaN]"
  by (simp add: npi_series_def Let_def present_def)

lemma smooth_series_2: "smooth_series [a, b] = [a, b]"
  by (rule smooth_series_short) simp

lemma smooth_lane_2: "smooth_lane [Some a, Some b] = [Some a, Some b]"
  using smooth_lane_short[of "[a, b]"] by simp

lemma lane0_flat_five:
  "lane 0 (rain_rel (vals flat_five) zero_month 0) 0 0 0 = [Fin 5, Fin 5]"
  by (simp add: lane_def elem_rain_rel flat_five_def zero_month_def upt_2 pos_def smooth_lane_2)

lemma wang_linho_flat_five:
  "wang_linho flat_five zero_month ''lat'' ''lon'' ''pentad'' =
     season_edges 5 pentad_lat_lon (rain_rel (vals flat_five) zero_month 0) ''lat'' ''lon''"
  by (simp add: wang_linho_def flat_five_def)

text \<open>
  Claim C5 as stated fails for a series that never exceeds the threshold because it
  equals it: with a relative rainfall of exactly 5 at both steps, \<open>wang_linho\<close> returns
  onset 1, withdrawal 2 and duration 1, not NaN.
\<close>

theorem threshold_equal_counterexample:
  "lane 0 (rain_rel (vals flat_five) zero_month 0) 0 0 0 = [Fin 5, Fin 5]
   \<and> onset_at (wang_linho flat_five zero_month ''lat'' ''lon'' ''pentad'') 0 0 = Some (Fin 1)
   \<and> withdrawal_at (wang_linho flat_five zero_month ''lat'' ''lon'' ''pentad'') 0 0 = Some (Fin 2)
   \<and> duration_at (wang_linho flat_five zero_month ''lat'' ''lon'' ''pentad'') 0 0 = Some (Fin 1)"
proof -
  let ?x = "rain_rel (vals flat_five) zero_month 0"
  have E: "season_edges 5 pentad_lat_lon ?x ''lat'' ''lon'' =
           Inr \<lparr>onset_pentad = cell_onset 5 ?x, withdrawal_pentad = cell_withdrawal 5 ?x,
                peak_pentad = cell_peak 5 ?x,
                duration = (\<lambda>j k. fl_sub (cell_withdrawal 5 ?x j k) (cell_onset 5 ?x j k))\<rparr>"
    by (rule season_edges_ok) (simp_all add: flat_five_def)
  have o: "cell_onset 5 ?x 0 0 = Fin 1" "cell_withdrawal 5 ?x 0 0 = Fin 2"
    by (simp_all add: cell_onset_def cell_withdrawal_def lane0_flat_five masked_less_def
          edges_two_unmasked)
  show ?thesis
    by (simp add: lane0_flat_five wang_linho_flat_five E onset_at_def withdrawal_at_def
          duration_at_def o)
qed

lemma lane0_dry_cell: "lane 0 (npi (vals dry_cell) 0) 0 0 0 = [NaN, NaN]"
  by (simp add: lane_npi) (simp add: lane_def dry_cell_def upt_2 smooth_lane_2 npi_series_00)

text \<open>
  In \<open>kitoh_uchiyama\<close> a cell with a constant series has the index \<open>0 / 0\<close> = NaN at
  every step, which \<open>masked_less\<close> leaves unmasked: onset 1 and withdrawal 2 here, with
  the peak NaN.
\<close>

lemma kitoh_uchiyama_dry_cell:
  "onset_at (kitoh_uchiyama dry_cell ''lat'' ''lon'' ''pentad'') 0 0 = Some (Fin 1)
   \<and> withdrawal_at (kitoh_uchiyama dry_cell ''lat'' ''lon'' ''pentad'') 0 0 = Some (Fin 2)
   \<and> peak_at (kitoh_uchiyama dry_cell ''lat'' ''lon'' ''pentad'') 0 0 = Some NaN"
proof -
  let ?x = "npi (vals dry_cell) 0"
  have K: "kitoh_uchiyama dry_cell ''lat'' ''lon'' ''pentad'' =
             season_edges (618 / 1000) pentad_lat_lon ?x ''lat'' ''lon''"
    by (simp add: kitoh_uchiyama_def dry_cell_def)
  have E: "season_edges (618 / 1000) pentad_lat_lon ?x ''lat'' ''lon'' =
           Inr \<lparr>onset_pentad = cell_onset (618 / 1000) ?x,
                withdrawal_pentad = cell_withdrawal (618 / 1000) ?x,
                peak_pentad = cell_peak (618 / 1000) ?x,
                duration = (\<lambda>j k. fl_sub (cell_withdrawal (618 / 1000) ?x j k)
                                         (cell_onset (618 / 1000) ?x j k))\<rparr>"
    by (rule season_edges_ok) (simp_all add: dry_cell_def)
  have o: "cell_onset (618 / 1000) ?x 0 0 = Fin 1" "cell_withdrawal (618 / 1000) ?x 0 0 = Fin 2"
          "cell_peak (618 / 1000) ?x 0 0 = NaN"
    by (simp_all add: cell_onset_def cell_withdrawal_def cell_peak_def lane0_dry_cell
          masked_less_def edges_two_unmasked ma_argmax_def filled_def argmax_def)
  show ?thesis
    unfolding K E onset_at_def withdrawal_at_def peak_at_def
    by (simp only: sum.case season.select_convs o simp_thms)
qed

subsection \<open>Peak\<close>

lemma lane0_row_of_cells:
  assumes "k < length css" "length (css ! k) = length (hd css)"
  shows "lane 0 (row_of_cells css) i j k = css ! k"
proof -
  have "lane 0 (row_of_cells css) i j k = map (\<lambda>t. css ! k ! t) [0..<length (hd css)]"
    by (simp add: lane_def)
  also have "\<dots> = css ! k" using assms(2) by (intro map_nth_upt)
  finally show ?thesis .
qed

lemma filled_masked_less:
  "filled (masked_less xs T) = map (\<lambda>v. if fl_less v T then NegInf else v) xs"
  by (simp add: filled_def masked_less_def)

lemma ma_argmax_first_maximum:
  assumes "NaN \<notin> set xs" "xs \<noteq> []"
  shows "(\<forall>t<length xs. fl_le (filled (masked_less xs T) ! t)
                              (filled (masked_less xs T) ! ma_argmax (masked_less xs T)))
       \<and> (\<forall>t<ma_argmax (masked_less xs T).
             \<not> fl_le (filled (masked_less xs T) ! ma_argmax (masked_less xs T))
                      (filled (masked_less xs T) ! t))"
proof -
  let ?f = "filled (masked_less xs T)"
  have n: "NaN \<notin> set ?f" using assms(1) by (auto simp: filled_masked_less)
  have e: "?f \<noteq> []" using assms(2) by (simp add: filled_masked_less)
  from argmax_first_maximum[OF n e] show ?thesis by (simp add: ma_argmax_def)
qed

lemma argmax_from_NaN: "argmax_from b NaN i xs = b"
  by (cases xs) simp_all

lemma argmax_from_keeps:
  "mp \<noteq> NaN \<Longrightarrow> \<forall>v\<in>set xs. fl_le v mp \<Longrightarrow> argmax_from b mp i xs = b"
  by (induction xs arbitrary: i) simp_all

lemma argmax_all_NegInf: "argmax (replicate n NegInf) = 0"
  by (cases n) (simp_all add: argmax_def argmax_from_keeps)

lemma argmax_from_first_nan:
  assumes "i0 < length ws" "ws ! i0 = NaN" "\<forall>t<i0. ws ! t \<noteq> NaN" "b < i" "i \<le> i0"
  shows "argmax_from b (ws ! b) i (drop i ws) = i0"
  using assms
proof (induction "i0 - i" arbitrary: i b)
  case 0
  then have i: "i = i0" by simp
  have d: "drop i0 ws = NaN # drop (Suc i0) ws"
    using 0(2,3) by (metis Cons_nth_drop_Suc)
  have "ws ! b \<noteq> NaN" using 0 i by simp
  then show ?case by (simp add: i d argmax_from_NaN)
next
  case (Suc n)
  then have il: "i < i0" by linarith
  then have il': "i < length ws" using Suc.prems(1) by simp
  have d: "drop i ws = ws ! i # drop (Suc i) ws" using il' by (simp add: Cons_nth_drop_Suc)
  have nb: "ws ! b \<noteq> NaN" using Suc.prems il by simp
  have n: "n = i0 - Suc i" using Suc.hyps(2) by simp
  show ?case
  proof (cases "fl_le (ws ! i) (ws ! b)")
    case True
    have "argmax_from b (ws ! b) (Suc i) (drop (Suc i) ws) = i0"
      by (rule Suc.hyps(1)[OF n Suc.prems(1,2,3)]) (use Suc.prems il in simp_all)
    then show ?thesis using True nb by (simp add: d)
  next
    case False
    have "argmax_from i (ws ! i) (Suc i) (drop (Suc i) ws) = i0"
      by (rule Suc.hyps(1)[OF n Suc.prems(1,2,3)]) (use il in simp_all)
    then show ?thesis using False nb by (simp add: d)
  qed
qed

lemma argmax_first_nan:
  assumes "i0 < length ws" "ws ! i0 = NaN" "\<forall>t<i0. ws ! t \<noteq> NaN"
  shows "argmax ws = i0"
proof (cases i0)
  case 0
  then obtain r where "ws = NaN # r" using assms(1,2) by (cases ws) auto
  then show ?thesis using 0 by (simp add: argmax_def argmax_from_NaN)
next
  case (Suc m)
  obtain w r where c: "ws = w # r" using assms(1) by (cases ws) auto
  have "argmax_from 0 (ws ! 0) 1 (drop 1 ws) = i0"
    by (rule argmax_from_first_nan[OF assms]) (use Suc in simp_all)
  then show ?thesis by (simp add: argmax_def c)
qed

lemma filled_nth:
  "t < length xs \<Longrightarrow>
     filled (masked_less xs T) ! t = (if fl_less (xs ! t) T then NegInf else xs ! t)"
  by (simp add: filled_masked_less)

lemma ma_argmax_all_masked:
  assumes "\<forall>t<length xs. fl_less (xs ! t) T"
  shows "ma_argmax (masked_less xs T) = 0"
proof -
  have "filled (masked_less xs T) = replicate (length xs) NegInf"
    using assms by (intro nth_equalityI) (simp_all add: filled_nth)
  then show ?thesis by (simp add: ma_argmax_def argmax_all_NegInf)
qed

lemma ma_argmax_first_nan:
  assumes "i0 < length xs" "xs ! i0 = NaN" "\<forall>t<i0. xs ! t \<noteq> NaN"
  shows "ma_argmax (masked_less xs T) = i0"
proof -
  let ?f = "filled (masked_less xs T)"
  have a: "i0 < length ?f" using assms(1) by simp
  have b: "?f ! i0 = NaN" using assms(1,2) by (simp add: filled_nth)
  have c: "\<forall>t<i0. ?f ! t \<noteq> NaN" using assms(1,3) by (simp add: filled_nth)
  show ?thesis unfolding ma_argmax_def by (rule argmax_first_nan[OF a b c])
qed

lemma unmasked_Fin: "v \<noteq> NaN \<Longrightarrow> \<not> fl_less v T \<Longrightarrow> \<exists>w. v = Fin w"
  by (cases v) auto

lemma ma_argmax_unmasked_maximum:
  assumes nn: "\<forall>t<length xs. xs ! t \<noteq> NaN"
    and u: "u < length xs" "\<not> fl_less (xs ! u) T"
  shows "ma_argmax (masked_less xs T) < length xs
       \<and> \<not> fl_less (xs ! ma_argmax (masked_less xs T)) T
       \<and> (\<forall>t<length xs. \<not> fl_less (xs ! t) T \<longrightarrow>
              fl_le (xs ! t) (xs ! ma_argmax (masked_less xs T)))
       \<and> (\<forall>t<ma_argmax (masked_less xs T). \<not> fl_less (xs ! t) T \<longrightarrow>
              \<not> fl_le (xs ! ma_argmax (masked_less xs T)) (xs ! t))"
proof -
  let ?a = "ma_argmax (masked_less xs T)"
  let ?f = "filled (masked_less xs T)"
  have ne: "xs \<noteq> []" using u(1) by auto
  have nan: "NaN \<notin> set xs" using nn by (metis in_set_conv_nth)
  note m = ma_argmax_first_maximum[OF nan ne, of T]
  have fne: "?f \<noteq> []" using ne by (simp add: filled_masked_less)
  have al: "?a < length xs" using argmax_bound[OF fne] by (simp add: ma_argmax_def)
  obtain w where w: "xs ! u = Fin w" using unmasked_Fin[OF _ u(2)] nn u(1) by blast
  have ua: "\<not> fl_less (xs ! ?a) T"
  proof
    assume "fl_less (xs ! ?a) T"
    then have "?f ! ?a = NegInf" using al by (simp add: filled_nth)
    moreover have "?f ! u = Fin w" using u w by (simp add: filled_nth)
    moreover have "fl_le (?f ! u) (?f ! ?a)" using m u(1) by blast
    ultimately show False by simp
  qed
  have fa: "?f ! ?a = xs ! ?a" using ua al by (simp add: filled_nth)
  have mx: "\<forall>t<length xs. \<not> fl_less (xs ! t) T \<longrightarrow> fl_le (xs ! t) (xs ! ?a)"
  proof (intro allI impI)
    fix t assume t: "t < length xs" "\<not> fl_less (xs ! t) T"
    then have "?f ! t = xs ! t" by (simp add: filled_nth)
    moreover have "fl_le (?f ! t) (?f ! ?a)" using m t(1) by blast
    ultimately show "fl_le (xs ! t) (xs ! ?a)" using fa by simp
  qed
  have fs: "\<forall>t<?a. \<not> fl_less (xs ! t) T \<longrightarrow> \<not> fl_le (xs ! ?a) (xs ! t)"
  proof (intro allI impI)
    fix t assume t: "t < ?a" "\<not> fl_less (xs ! t) T"
    then have "t < length xs" using al by simp
    then have "?f ! t = xs ! t" using t(2) by (simp add: filled_nth)
    moreover have "\<not> fl_le (?f ! ?a) (?f ! t)" using m t(1) by blast
    ultimately show "\<not> fl_le (xs ! ?a) (xs ! t)" using fa by simp
  qed
  show ?thesis using al ua mx fs by blast
qed

lemma lane0_map: "lane 0 x i j k = map (\<lambda>t. elem x t j k) [0..<n0 x]"
  by (simp add: lane_def)

text \<open>
  Claim C6. For every cell \<open>(j, k)\<close> of a returned result, with \<open>a\<close> the zero-based
  \<open>argmax\<close> of the masked series along axis 0: the peak is \<open>a + 1\<close>, with a peak equal
  to 1 replaced by NaN, so every peak is NaN or an index greater than 1 (and at most the
  length of axis 0). The \<open>argmax\<close> is taken over the unmasked entries: a series below
  the threshold throughout has \<open>a = 0\<close> and the peak NaN; in a series without NaN that
  has an unmasked entry, \<open>a\<close> is the first position of the largest unmasked value; and
  in a series with a NaN (which the mask leaves in) \<open>a\<close> is the position of the first
  NaN, as numpy's \<open>argmax\<close> has it.
\<close>

theorem peak_pentad_argmax:
  assumes "season_edges T ds x latdim londim = Inr r"
    and "a = ma_argmax (masked_less (map (\<lambda>t. elem x t j k) [0..<n0 x]) T)"
  shows "peak_pentad r j k = (if real a + 1 = 1 then NaN else Fin (real a + 1))
       \<and> (peak_pentad r j k = NaN
            \<or> (\<exists>n. 1 < n \<and> n \<le> n0 x \<and> peak_pentad r j k = Fin (real n)))
       \<and> ((\<forall>t<n0 x. fl_less (elem x t j k) T) \<longrightarrow> a = 0 \<and> peak_pentad r j k = NaN)
       \<and> ((\<forall>t<n0 x. elem x t j k \<noteq> NaN) \<and> (\<exists>t<n0 x. \<not> fl_less (elem x t j k) T) \<longrightarrow>
             a < n0 x \<and> \<not> fl_less (elem x a j k) T
           \<and> (\<forall>t<n0 x. \<not> fl_less (elem x t j k) T \<longrightarrow> fl_le (elem x t j k) (elem x a j k))
           \<and> (\<forall>t<a. \<not> fl_less (elem x t j k) T \<longrightarrow> \<not> fl_le (elem x a j k) (elem x t j k)))
       \<and> ((\<exists>t<n0 x. elem x t j k = NaN) \<longrightarrow>
             a < n0 x \<and> elem x a j k = NaN \<and> (\<forall>t<a. elem x t j k \<noteq> NaN))"
proof -
  note r = season_edges_Inr[OF assms(1)]
  let ?xs = "lane 0 x 0 j k"
  have a: "a = ma_argmax (masked_less ?xs T)" using assms(2) by (simp only: lane0_map)
  have len: "length ?xs = n0 x" by simp
  have nth: "\<And>t. t < n0 x \<Longrightarrow> ?xs ! t = elem x t j k" by (rule lane0_nth)
  have p: "peak_pentad r j k = (if a = 0 then NaN else Fin (real a + 1))"
    by (simp add: r(4) cell_peak_eq a)
  have b: "a < n0 x" unfolding a by (rule ma_argmax_bound[OF r(1)])
  have c2: "peak_pentad r j k = NaN
            \<or> (\<exists>n. 1 < n \<and> n \<le> n0 x \<and> peak_pentad r j k = Fin (real n))"
  proof (cases "a = 0")
    case True
    then show ?thesis using p by simp
  next
    case False
    then have "1 < Suc a \<and> Suc a \<le> n0 x \<and> peak_pentad r j k = Fin (real (Suc a))"
      using p b by simp
    then show ?thesis by blast
  qed
  have c3: "a = 0 \<and> peak_pentad r j k = NaN" if h: "\<forall>t<n0 x. fl_less (elem x t j k) T"
  proof -
    have "\<forall>t<length ?xs. fl_less (?xs ! t) T" using h nth by simp
    from ma_argmax_all_masked[OF this] show ?thesis using p a by simp
  qed
  have c4: "a < n0 x \<and> \<not> fl_less (elem x a j k) T
           \<and> (\<forall>t<n0 x. \<not> fl_less (elem x t j k) T \<longrightarrow> fl_le (elem x t j k) (elem x a j k))
           \<and> (\<forall>t<a. \<not> fl_less (elem x t j k) T \<longrightarrow> \<not> fl_le (elem x a j k) (elem x t j k))"
    if h: "(\<forall>t<n0 x. elem x t j k \<noteq> NaN) \<and> (\<exists>t<n0 x. \<not> fl_less (elem x t j k) T)"
  proof -
    from h obtain u where u: "u < n0 x" "\<not> fl_less (elem x u j k) T" by blast
    have nn: "\<forall>t<length ?xs. ?xs ! t \<noteq> NaN" using h nth by simp
    have u': "u < length ?xs" "\<not> fl_less (?xs ! u) T" using u nth by simp_all
    note m = ma_argmax_unmasked_maximum[OF nn u', folded a]
    have ea: "?xs ! a = elem x a j k" using b nth by simp
    have 1: "\<not> fl_less (elem x a j k) T" using m ea by simp
    have 2: "\<forall>t<n0 x. \<not> fl_less (elem x t j k) T \<longrightarrow> fl_le (elem x t j k) (elem x a j k)"
    proof (intro allI impI)
      fix t assume t: "t < n0 x" "\<not> fl_less (elem x t j k) T"
      then have "t < length ?xs" "\<not> fl_less (?xs ! t) T" using nth by simp_all
      then have "fl_le (?xs ! t) (?xs ! a)" using m by blast
      then show "fl_le (elem x t j k) (elem x a j k)" using ea nth[OF t(1)] by simp
    qed
    have 3: "\<forall>t<a. \<not> fl_less (elem x t j k) T \<longrightarrow> \<not> fl_le (elem x a j k) (elem x t j k)"
    proof (intro allI impI)
      fix t assume t: "t < a" "\<not> fl_less (elem x t j k) T"
      then have tn: "t < n0 x" using b by simp
      then have "\<not> fl_less (?xs ! t) T" using t(2) nth by simp
      then have "\<not> fl_le (?xs ! a) (?xs ! t)" using m t(1) by blast
      then show "\<not> fl_le (elem x a j k) (elem x t j k)" using ea nth[OF tn] by simp
    qed
    show ?thesis using b 1 2 3 by blast
  qed
  have c5: "a < n0 x \<and> elem x a j k = NaN \<and> (\<forall>t<a. elem x t j k \<noteq> NaN)"
    if h: "\<exists>t<n0 x. elem x t j k = NaN"
  proof -
    define P where "P t \<longleftrightarrow> t < n0 x \<and> elem x t j k = NaN" for t
    define i0 where "i0 = Least P"
    from h obtain t0 where "P t0" unfolding P_def by blast
    then have "P i0" unfolding i0_def by (rule LeastI)
    then have i: "i0 < n0 x \<and> elem x i0 j k = NaN" by (simp add: P_def)
    have "\<not> P t" if "t < i0" for t
      using that unfolding i0_def by (rule not_less_Least)
    then have l: "\<forall>t<i0. \<not> (t < n0 x \<and> elem x t j k = NaN)" by (simp add: P_def)
    have l': "\<forall>t<i0. elem x t j k \<noteq> NaN" using l i by auto
    have 1: "i0 < length ?xs" using i by simp
    have 2: "?xs ! i0 = NaN" using i nth by simp
    have 3: "\<forall>t<i0. ?xs ! t \<noteq> NaN"
    proof (intro allI impI)
      fix t assume t: "t < i0"
      then have "t < n0 x" using i by simp
      then show "?xs ! t \<noteq> NaN" using l' t nth by simp
    qed
    have "a = i0" unfolding a by (rule ma_argmax_first_nan[OF 1 2 3])
    then show ?thesis using i l' by simp
  qed
  have c1: "peak_pentad r j k = (if real a + 1 = 1 then NaN else Fin (real a + 1))"
    using p by simp
  have d3: "(\<forall>t<n0 x. fl_less (elem x t j k) T) \<longrightarrow> a = 0 \<and> peak_pentad r j k = NaN"
    by (rule impI) (rule c3)
  have d4: "(\<forall>t<n0 x. elem x t j k \<noteq> NaN) \<and> (\<exists>t<n0 x. \<not> fl_less (elem x t j k) T) \<longrightarrow>
             a < n0 x \<and> \<not> fl_less (elem x a j k) T
           \<and> (\<forall>t<n0 x. \<not> fl_less (elem x t j k) T \<longrightarrow> fl_le (elem x t j k) (elem x a j k))
           \<and> (\<forall>t<a. \<not> fl_less (elem x t j k) T \<longrightarrow> \<not> fl_le (elem x a j k) (elem x t j k))"
    by (rule impI) (rule c4)
  have d5: "(\<exists>t<n0 x. elem x t j k = NaN) \<longrightarrow>
             a < n0 x \<and> elem x a j k = NaN \<and> (\<forall>t<a. elem x t j k \<noteq> NaN)"
    by (rule impI) (rule c5)
  show ?thesis by (rule conjI[OF c1 conjI[OF c2 conjI[OF d3 conjI[OF d4 d5]]]])
qed

theorem peak_pentad_argmax_witness:
  "peak_at (season_edges 5 pentad_lat_lon
      (row_of_cells [[Fin 0, Fin 7, Fin 9, Fin 6], [Fin 9, Fin 7, Fin 0, Fin 0],
                     [Fin 1, Fin 3, Fin 2, Fin 0], [Fin 6, NaN, Fin 8, NaN]]) ''lat'' ''lon'') 0 0
     = Some (Fin 3)
   \<and> peak_at (season_edges 5 pentad_lat_lon
      (row_of_cells [[Fin 0, Fin 7, Fin 9, Fin 6], [Fin 9, Fin 7, Fin 0, Fin 0],
                     [Fin 1, Fin 3, Fin 2, Fin 0], [Fin 6, NaN, Fin 8, NaN]]) ''lat'' ''lon'') 0 1
     = Some NaN
   \<and> peak_at (season_edges 5 pentad_lat_lon
      (row_of_cells [[Fin 0, Fin 7, Fin 9, Fin 6], [Fin 9, Fin 7, Fin 0, Fin 0],
                     [Fin 1, Fin 3, Fin 2, Fin 0], [Fin 6, NaN, Fin 8, NaN]]) ''lat'' ''lon'') 0 2
     = Some NaN
   \<and> peak_at (season_edges 5 pentad_lat_lon
      (row_of_cells [[Fin 0, Fin 7, Fin 9, Fin 6], [Fin 9, Fin 7, Fin 0, Fin 0],
                     [Fin 1, Fin 3, Fin 2, Fin 0], [Fin 6, NaN, Fin 8, NaN]]) ''lat'' ''lon'') 0 3
     = Some (Fin 2)"
proof -
  let ?css = "[[Fin 0, Fin 7, Fin 9, Fin 6], [Fin 9, Fin 7, Fin 0, Fin 0],
               [Fin 1, Fin 3, Fin 2, Fin 0], [Fin 6, NaN, Fin 8, NaN]]"
  let ?x = "row_of_cells ?css"
  obtain r where E: "season_edges 5 pentad_lat_lon ?x ''lat'' ''lon'' = Inr r"
    using season_edges_ok[of ?x pentad_lat_lon "''lat''" "''lon''" 5] by simp
  have l0: "map (\<lambda>t. elem ?x t 0 0) [0..<n0 ?x] = [Fin 0, Fin 7, Fin 9, Fin 6]"
    using lane0_row_of_cells[of 0 ?css 0 0] by (simp add: lane0_map)
  have l1: "map (\<lambda>t. elem ?x t 0 1) [0..<n0 ?x] = [Fin 9, Fin 7, Fin 0, Fin 0]"
    using lane0_row_of_cells[of 1 ?css 0 0] by (simp add: lane0_map)
  have l3: "map (\<lambda>t. elem ?x t 0 3) [0..<n0 ?x] = [Fin 6, NaN, Fin 8, NaN]"
    using lane0_row_of_cells[of 3 ?css 0 0] by (simp add: lane0_map)
  have a0: "ma_argmax (masked_less (map (\<lambda>t. elem ?x t 0 0) [0..<n0 ?x]) 5) = 2"
    unfolding l0 by (simp add: ma_argmax_def masked_less_def filled_def argmax_def)
  have a1: "ma_argmax (masked_less (map (\<lambda>t. elem ?x t 0 1) [0..<n0 ?x]) 5) = 0"
    unfolding l1 by (simp add: ma_argmax_def masked_less_def filled_def argmax_def)
  have a3: "ma_argmax (masked_less (map (\<lambda>t. elem ?x t 0 3) [0..<n0 ?x]) 5) = 1"
    unfolding l3 by (simp add: ma_argmax_def masked_less_def filled_def argmax_def)
  have lo: "\<forall>t<n0 ?x. fl_less (elem ?x t 0 2) 5"
    by (simp add: less_Suc_eq numeral_eq_Suc)
  from peak_pentad_argmax[OF E refl, of 0 0] have F: "peak_pentad r 0 0 = Fin 3"
    unfolding a0 by simp
  from peak_pentad_argmax[OF E refl, of 0 1] have G: "peak_pentad r 0 1 = NaN"
    unfolding a1 by simp
  from peak_pentad_argmax[OF E refl, of 0 2] lo have H: "peak_pentad r 0 2 = NaN"
    by blast
  from peak_pentad_argmax[OF E refl, of 0 3] have I: "peak_pentad r 0 3 = Fin 2"
    unfolding a3 by simp
  show ?thesis unfolding peak_at_def E by (simp only: sum.case F G H I simp_thms)
qed

subsection \<open>The axis of the detection\<close>

lemma lane0_rain_rel:
  "lane 0 (rain_rel p m 0) 0 j k =
     map (\<lambda>t. case smooth_lane (lane 0 p 0 j k) ! t of
                  None \<Rightarrow> NaN
                | Some v \<Rightarrow> Fin (v - m t j k)) [0..<n0 p]"
  by (simp add: lane_def elem_rain_rel pos_def)

text \<open>
  Claim C9. Whatever axis \<open>pentaddim\<close> names, the results of \<open>kitoh_uchiyama\<close> and
  \<open>wang_linho\<close> at \<open>(j, k)\<close> are computed from the series \<open>xs\<close> (\<open>ys\<close>) of the index
  (relative rainfall) array along its first axis, at the positions \<open>j\<close>, \<open>k\<close> of its
  second and third axes: onset and withdrawal are the first and the last unmasked index
  of that series plus 1, the peak its masked \<open>argmax\<close> plus 1. When the pentad dimension
  is the first axis, that series is the cell's own smoothed and normalised (or
  month-relative) time series.
\<close>

theorem detection_scans_axis_0:
  assumes "get_axis_num (dims p) pentaddim = Some axisno"
    and "xs = map (\<lambda>t. elem (npi (vals p) axisno) t j k) [0..<n0 (vals p)]"
    and "ys = map (\<lambda>t. elem (rain_rel (vals p) p_month axisno) t j k) [0..<n0 (vals p)]"
  shows "(kitoh_uchiyama p latdim londim pentaddim = Inr r \<longrightarrow>
            onset_pentad r j k =
              (case notmasked_edges (masked_less xs (618 / 1000)) of
                 None \<Rightarrow> NaN | Some (a, b) \<Rightarrow> Fin (real a + 1))
          \<and> withdrawal_pentad r j k =
              (case notmasked_edges (masked_less xs (618 / 1000)) of
                 None \<Rightarrow> NaN | Some (a, b) \<Rightarrow> Fin (real b + 1))
          \<and> peak_pentad r j k =
              (if ma_argmax (masked_less xs (618 / 1000)) = 0 then NaN
               else Fin (real (ma_argmax (masked_less xs (618 / 1000))) + 1)))
       \<and> (wang_linho p p_month latdim londim pentaddim = Inr r' \<longrightarrow>
            onset_pentad r' j k =
              (case notmasked_edges (masked_less ys 5) of
                 None \<Rightarrow> NaN | Some (a, b) \<Rightarrow> Fin (real a + 1))
          \<and> withdrawal_pentad r' j k =
              (case notmasked_edges (masked_less ys 5) of
                 None \<Rightarrow> NaN | Some (a, b) \<Rightarrow> Fin (real b + 1))
          \<and> peak_pentad r' j k =
              (if ma_argmax (masked_less ys 5) = 0 then NaN
               else Fin (real (ma_argmax (masked_less ys 5)) + 1)))
       \<and> (axisno = 0 \<longrightarrow>
            xs = npi_series (smooth_lane (map (\<lambda>t. elem (vals p) t j k) [0..<n0 (vals p)]))
          \<and> ys = map (\<lambda>t. case smooth_lane (map (\<lambda>t. elem (vals p) t j k) [0..<n0 (vals p)]) ! t of
                             None \<Rightarrow> NaN
                           | Some v \<Rightarrow> Fin (v - p_month t j k)) [0..<n0 (vals p)])"
proof -
  have xs: "xs = lane 0 (npi (vals p) axisno) 0 j k" by (simp add: assms(2) lane0_map)
  have ys: "ys = lane 0 (rain_rel (vals p) p_month axisno) 0 j k" by (simp add: assms(3) lane0_map)
  have k: "onset_pentad r j k =
              (case notmasked_edges (masked_less xs (618 / 1000)) of
                 None \<Rightarrow> NaN | Some (a, b) \<Rightarrow> Fin (real a + 1))
          \<and> withdrawal_pentad r j k =
              (case notmasked_edges (masked_less xs (618 / 1000)) of
                 None \<Rightarrow> NaN | Some (a, b) \<Rightarrow> Fin (real b + 1))
          \<and> peak_pentad r j k =
              (if ma_argmax (masked_less xs (618 / 1000)) = 0 then NaN
               else Fin (real (ma_argmax (masked_less xs (618 / 1000))) + 1))"
    if h: "kitoh_uchiyama p latdim londim pentaddim = Inr r"
  proof -
    from h assms(1) have "season_edges (618 / 1000) (dims p) (npi (vals p) axisno) latdim londim = Inr r"
      by (simp add: kitoh_uchiyama_def split: if_splits)
    note e = season_edges_Inr[OF this]
    show ?thesis unfolding e(2,3,4) cell_onset_def cell_withdrawal_def cell_peak_eq xs
      by (rule conjI[OF refl conjI[OF refl refl]])
  qed
  have w: "onset_pentad r' j k =
              (case notmasked_edges (masked_less ys 5) of
                 None \<Rightarrow> NaN | Some (a, b) \<Rightarrow> Fin (real a + 1))
          \<and> withdrawal_pentad r' j k =
              (case notmasked_edges (masked_less ys 5) of
                 None \<Rightarrow> NaN | Some (a, b) \<Rightarrow> Fin (real b + 1))
          \<and> peak_pentad r' j k =
              (if ma_argmax (masked_less ys 5) = 0 then NaN
               else Fin (real (ma_argmax (masked_less ys 5)) + 1))"
    if h: "wang_linho p p_month latdim londim pentaddim = Inr r'"
  proof -
    from h assms(1) have "season_edges 5 (dims p) (rain_rel (vals p) p_month axisno) latdim londim = Inr r'"
      by (simp add: wang_linho_def split: if_splits)
    note e = season_edges_Inr[OF this]
    show ?thesis unfolding e(2,3,4) cell_onset_def cell_withdrawal_def cell_peak_eq ys
      by (rule conjI[OF refl conjI[OF refl refl]])
  qed
  have z: "xs = npi_series (smooth_lane (map (\<lambda>t. elem (vals p) t j k) [0..<n0 (vals p)]))
          \<and> ys = map (\<lambda>t. case smooth_lane (map (\<lambda>t. elem (vals p) t j k) [0..<n0 (vals p)]) ! t of
                             None \<Rightarrow> NaN
                           | Some v \<Rightarrow> Fin (v - p_month t j k)) [0..<n0 (vals p)]"
    if h: "axisno = 0"
  proof -
    have l: "map (\<lambda>t. elem (vals p) t j k) [0..<n0 (vals p)] = lane 0 (vals p) 0 j k"
      by (simp add: lane0_map)
    show ?thesis unfolding l xs ys h by (simp add: lane_npi lane0_rain_rel)
  qed
  have dk: "kitoh_uchiyama p latdim londim pentaddim = Inr r \<longrightarrow>
            onset_pentad r j k =
              (case notmasked_edges (masked_less xs (618 / 1000)) of
                 None \<Rightarrow> NaN | Some (a, b) \<Rightarrow> Fin (real a + 1))
          \<and> withdrawal_pentad r j k =
              (case notmasked_edges (masked_less xs (618 / 1000)) of
                 None \<Rightarrow> NaN | Some (a, b) \<Rightarrow> Fin (real b + 1))
          \<and> peak_pentad r j k =
              (if ma_argmax (masked_less xs (618 / 1000)) = 0 then NaN
               else Fin (real (ma_argmax (masked_less xs (618 / 1000))) + 1))"
    by (rule impI) (rule k)
  have dw: "wang_linho p p_month latdim londim pentaddim = Inr r' \<longrightarrow>
            onset_pentad r' j k =
              (case notmasked_edges (masked_less ys 5) of
                 None \<Rightarrow> NaN | Some (a, b) \<Rightarrow> Fin (real a + 1))
          \<and> withdrawal_pentad r' j k =
              (case notmasked_edges (masked_less ys 5) of
                 None \<Rightarrow> NaN | Some (a, b) \<Rightarrow> Fin (real b + 1))
          \<and> peak_pentad r' j k =
              (if ma_argmax (masked_less ys 5) = 0 then NaN
               else Fin (real (ma_argmax (masked_less ys 5)) + 1))"
    by (rule impI) (rule w)
  have dz: "axisno = 0 \<longrightarrow>
            xs = npi_series (smooth_lane (map (\<lambda>t. elem (vals p) t j k) [0..<n0 (vals p)]))
          \<and> ys = map (\<lambda>t. case smooth_lane (map (\<lambda>t. elem (vals p) t j k) [0..<n0 (vals p)]) ! t of
                             None \<Rightarrow> NaN
                           | Some v \<Rightarrow> Fin (v - p_month t j k)) [0..<n0 (vals p)]"
    by (rule impI) (rule z)
  show ?thesis by (rule conjI[OF dk conjI[OF dw dz]])
qed

lemma npi_series_10_0: "npi_series [Some 10, Some 0] = [Fin 1, Fin 0]"
  by (simp add: npi_series_def Let_def present_def)

lemma npi_series_0_10: "npi_series [Some 0, Some 10] = [Fin 0, Fin 1]"
  by (simp add: npi_series_def Let_def present_def)

lemma lane2_rising_cube: "lane 2 rising_cube i j k = [Some 0, Some 1]"
  by (simp add: lane_def rising_cube_def upt_2)

lemma lane2_crossing_cube:
  "lane 2 crossing_cube 0 j k = [Some 10, Some 0]"
  "lane 2 crossing_cube (Suc 0) j k = [Some 0, Some 10]"
  by (simp_all add: lane_def crossing_cube_def upt_2)

lemma axis0_npi_rising_cube:
  "map (\<lambda>t. elem (npi rising_cube 2) t j k) [0..<n0 rising_cube] = [[Fin 0, Fin 1] ! k, [Fin 0, Fin 1] ! k]"
  by (simp add: elem_npi pos_def lane2_rising_cube smooth_lane_2 npi_series_01)
     (simp add: rising_cube_def upt_2)

lemma axis0_npi_crossing_cube:
  "map (\<lambda>t. elem (npi crossing_cube 2) t j k) [0..<n0 crossing_cube] = [[Fin 1, Fin 0] ! k, [Fin 0, Fin 1] ! k]"
proof -
  have n: "[0..<n0 crossing_cube] = [0, Suc 0]" by (simp add: crossing_cube_def upt_2)
  show ?thesis
    unfolding n
    by (simp add: elem_npi pos_def lane2_crossing_cube smooth_lane_2 npi_series_10_0 npi_series_0_10)
qed

lemma axis0_rain_rel_crossing_cube:
  "map (\<lambda>t. elem (rain_rel crossing_cube zero_month 2) t j 1) [0..<n0 crossing_cube] =
     [Fin 0, Fin 10]"
proof -
  have n: "[0..<n0 crossing_cube] = [0, Suc 0]" by (simp add: crossing_cube_def upt_2)
  show ?thesis
    unfolding n
    by (simp add: elem_rain_rel pos_def lane2_crossing_cube smooth_lane_2 zero_month_def)
qed

lemma edges_first_unmasked: "notmasked_edges [(a, False), (b, True)] = Some (0, 0)"
  by (simp add: notmasked_edges_def upt_2)

lemma kitoh_uchiyama_cube:
  assumes "n0 c = 2" "n1 c = 2" "n2 c = 2"
  shows "\<exists>r. kitoh_uchiyama \<lparr>dims = lat_lon_pentad, vals = c\<rparr> ''lat'' ''lon'' ''pentad'' = Inr r"
  using season_edges_ok[of "npi c 2" lat_lon_pentad "''lat''" "''lon''" "618 / 1000"] assms
  by (simp add: kitoh_uchiyama_def axis_len_def)

lemma wang_linho_cube:
  assumes "n0 c = 2" "n1 c = 2" "n2 c = 2"
  shows "\<exists>r. wang_linho \<lparr>dims = lat_lon_pentad, vals = c\<rparr> m ''lat'' ''lon'' ''pentad'' = Inr r"
  using season_edges_ok[of "rain_rel c m 2" lat_lon_pentad "''lat''" "''lon''" 5] assms
  by (simp add: wang_linho_def axis_len_def)

lemma axis0_npi_rising_first:
  "map (\<lambda>t. elem (npi (vals rising_pentad_first) 0) t 0 0) [0..<n0 (vals rising_pentad_first)]
     = [Fin 0, Fin 1]"
proof -
  have "lane 0 (npi (vals rising_pentad_first) 0) 0 0 0 = [Fin 0, Fin 1]"
    by (simp add: lane_npi) (simp add: lane_def rising_pentad_first_def upt_2 smooth_lane_2 npi_series_01)
  then show ?thesis by (simp add: lane0_map)
qed

text \<open>
  With the pentads on the last axis of a 2 x 2 x 2 array whose every cell rises from 0 to
  1, every cell's index series along the pentad axis is \<open>[0, 1]\<close> (first crossing at
  the second pentad), yet the returned onset is NaN at \<open>(0, 0)\<close> and 1 at \<open>(0, 1)\<close>.
  In the second array the cells of the first latitude fall from 10 to 0 and those of the
  second rise from 0 to 10: at \<open>(0, 1)\<close> both functions return onset, withdrawal and
  peak 2, read along the latitudes, where the cell's own series \<open>[1, 0]\<close> starts above
  the threshold. With the pentads on axis 0 the rising series gives onset 2 and peak 2.
\<close>

theorem detection_scans_axis_0_witness:
  "onset_at (kitoh_uchiyama rising_pentad_last ''lat'' ''lon'' ''pentad'') 0 0 = Some NaN
   \<and> onset_at (kitoh_uchiyama rising_pentad_last ''lat'' ''lon'' ''pentad'') 0 1 = Some (Fin 1)
   \<and> withdrawal_at (kitoh_uchiyama rising_pentad_last ''lat'' ''lon'' ''pentad'') 0 1 = Some (Fin 2)
   \<and> lane 2 (npi (vals rising_pentad_last) 2) 0 0 0 = [Fin 0, Fin 1]
   \<and> lane 2 (npi (vals rising_pentad_last) 2) 0 1 0 = [Fin 0, Fin 1]
   \<and> onset_at (kitoh_uchiyama crossing_pentad_last ''lat'' ''lon'' ''pentad'') 0 1 = Some (Fin 2)
   \<and> peak_at (kitoh_uchiyama crossing_pentad_last ''lat'' ''lon'' ''pentad'') 0 1 = Some (Fin 2)
   \<and> lane 2 (npi (vals crossing_pentad_last) 2) 0 1 0 = [Fin 1, Fin 0]
   \<and> onset_at (wang_linho crossing_pentad_last zero_month ''lat'' ''lon'' ''pentad'') 0 1 = Some (Fin 2)
   \<and> withdrawal_at (wang_linho crossing_pentad_last zero_month ''lat'' ''lon'' ''pentad'') 0 1 = Some (Fin 2)
   \<and> peak_at (wang_linho crossing_pentad_last zero_month ''lat'' ''lon'' ''pentad'') 0 1 = Some (Fin 2)
   \<and> onset_at (kitoh_uchiyama rising_pentad_first ''lat'' ''lon'' ''pentad'') 0 0 = Some (Fin 2)
   \<and> peak_at (kitoh_uchiyama rising_pentad_first ''lat'' ''lon'' ''pentad'') 0 0 = Some (Fin 2)"
proof -
  have vr: "vals rising_pentad_last = rising_cube" by (simp add: rising_pentad_last_def)
  have vc: "vals crossing_pentad_last = crossing_cube" by (simp add: crossing_pentad_last_def)
  have axr: "get_axis_num (dims rising_pentad_last) ''pentad'' = Some 2"
    by (simp add: rising_pentad_last_def)
  have axc: "get_axis_num (dims crossing_pentad_last) ''pentad'' = Some 2"
    by (simp add: crossing_pentad_last_def)
  have axf: "get_axis_num (dims rising_pentad_first) ''pentad'' = Some 0"
    by (simp add: rising_pentad_first_def)
  obtain r1 where E1: "kitoh_uchiyama rising_pentad_last ''lat'' ''lon'' ''pentad'' = Inr r1"
    using kitoh_uchiyama_cube[of rising_cube]
    by (auto simp: rising_pentad_last_def rising_cube_def)
  obtain r2 where E2: "kitoh_uchiyama crossing_pentad_last ''lat'' ''lon'' ''pentad'' = Inr r2"
    using kitoh_uchiyama_cube[of crossing_cube]
    by (auto simp: crossing_pentad_last_def crossing_cube_def)
  obtain r3 where E3: "wang_linho crossing_pentad_last zero_month ''lat'' ''lon'' ''pentad'' = Inr r3"
    using wang_linho_cube[of crossing_cube zero_month]
    by (auto simp: crossing_pentad_last_def crossing_cube_def)
  obtain r4 where E4: "kitoh_uchiyama rising_pentad_first ''lat'' ''lon'' ''pentad'' = Inr r4"
    using season_edges_ok[of "npi (vals rising_pentad_first) 0" pentad_lat_lon "''lat''" "''lon''" "618 / 1000"]
    by (simp add: kitoh_uchiyama_def rising_pentad_first_def)
  have m00: "masked_less [[Fin 0, Fin 1] ! 0, [Fin 0, Fin 1] ! 0] (618 / 1000)
               = [(Fin 0, True), (Fin 0, True)]"
    by (simp add: masked_less_def)
  have m01: "masked_less [[Fin 0, Fin 1] ! 1, [Fin 0, Fin 1] ! 1] (618 / 1000)
               = [(Fin 1, False), (Fin 1, False)]"
    by (simp add: masked_less_def)
  have mc: "masked_less [[Fin 1, Fin 0] ! 1, [Fin 0, Fin 1] ! 1] (618 / 1000)
               = [(Fin 0, True), (Fin 1, False)]"
    by (simp add: masked_less_def)
  have mw: "masked_less [Fin 0, Fin 10] 5 = [(Fin 0, True), (Fin 10, False)]"
    by (simp add: masked_less_def)
  have mf: "masked_less [Fin 0, Fin 1] (618 / 1000) = [(Fin 0, True), (Fin 1, False)]"
    by (simp add: masked_less_def)
  have am: "ma_argmax [(a, True), (Fin b, False)] = 1" for a b
    by (simp add: ma_argmax_def filled_def argmax_def)
  from detection_scans_axis_0[OF axr refl refl, of "''lat''" "''lon''" r1 0 0] E1
  have F1: "onset_pentad r1 0 0 = NaN"
    unfolding vr axis0_npi_rising_cube m00 edges_two_masked by simp
  from detection_scans_axis_0[OF axr refl refl, of "''lat''" "''lon''" r1 0 1] E1
  have F2: "onset_pentad r1 0 1 = Fin 1" "withdrawal_pentad r1 0 1 = Fin 2"
    unfolding vr axis0_npi_rising_cube m01 edges_two_unmasked by simp_all
  from detection_scans_axis_0[OF axc refl refl, of "''lat''" "''lon''" r2 0 1] E2
  have F3: "onset_pentad r2 0 1 = Fin 2" "peak_pentad r2 0 1 = Fin 2"
    unfolding vc axis0_npi_crossing_cube mc edges_second_unmasked am by simp_all
  from detection_scans_axis_0[OF axc refl refl, of "''lat''" "''lon''" r2 0 1 zero_month r3] E3
  have F4: "onset_pentad r3 0 1 = Fin 2" "withdrawal_pentad r3 0 1 = Fin 2" "peak_pentad r3 0 1 = Fin 2"
    unfolding vc axis0_rain_rel_crossing_cube mw edges_second_unmasked am by simp_all
  from detection_scans_axis_0[OF axf refl refl, of "''lat''" "''lon''" r4 0 0] E4
  have F5: "onset_pentad r4 0 0 = Fin 2" "peak_pentad r4 0 0 = Fin 2"
    unfolding axis0_npi_rising_first mf edges_second_unmasked am by simp_all
  have L: "lane 2 (npi (vals rising_pentad_last) 2) 0 0 0 = [Fin 0, Fin 1]"
          "lane 2 (npi (vals rising_pentad_last) 2) 0 1 0 = [Fin 0, Fin 1]"
          "lane 2 (npi (vals crossing_pentad_last) 2) 0 1 0 = [Fin 1, Fin 0]"
    unfolding vr vc
    by (simp_all add: lane_npi lane2_rising_cube lane2_crossing_cube smooth_lane_2
          npi_series_01 npi_series_10_0)
  show ?thesis
    unfolding onset_at_def withdrawal_at_def peak_at_def E1 E2 E3 E4
    by (simp only: sum.case F1 F2 F3 F4 F5 L simp_thms)
qed

section \<open>Properties of gao\_onset\<close>

lemma area_mean_NameError: "area_mean var_in areacell rest = Inl (NameError ''u'')"
  by (simp add: area_mean_def load_name_def gao_module_def)

text \<open>
  Claim C1 fails on \<open>gao_onset\<close>: \<open>area_mean\<close> raises \<open>NameError\<close> for \<open>u\<close> whatever
  its arguments and the rest of its body, so \<open>gao_onset\<close> raises whenever its first
  statements do not, on every input.
\<close>

theorem gao_onset_raises:
  "gao_onset prelude rest scan t q u areacell =
     (case prelude t q u of Inl e \<Rightarrow> Inl e | Inr y \<Rightarrow> Inl (NameError ''u''))
   \<and> gao_onset (\<lambda>t q u. Inr (t, u)) rest scan t q u areacell = Inl (NameError ''u'')"
  by (simp add: gao_onset_def area_mean_NameError split: sum.splits prod.splits)

section \<open>The mean of the smoothed series\<close>

lemma p_smooth_preserves_mean:
  assumes "axis_len p axisno \<noteq> 0" "None \<notin> set (lane axisno p i j k)"
  shows "nanmean (lane axisno (p_smooth p axisno) i j k) = nanmean (lane axisno p i j k)"
    and "nanmean (lane axisno p i j k) \<noteq> None"
proof -
  have ne: "lane axisno p i j k \<noteq> []" using assms(1) by (intro lane_nonempty) simp
  show "nanmean (lane axisno (p_smooth p axisno) i j k) = nanmean (lane axisno p i j k)"
    unfolding lane_p_smooth by (rule nanmean_smooth_lane(1)[OF ne assms(2)])
  show "nanmean (lane axisno p i j k) \<noteq> None"
    using nanmean_smooth_lane(2)[OF ne assms(2)] by simp
qed

text \<open>
  Claim C2, amended. When \<open>smooth_data\<close> returns, every lane of the result along the
  time axis is the smoothed lane of the input; and for every lane of the input that holds
  no missing value (NaN), the mean over the time axis of the smoothed lane is a number and
  equals the mean of the input lane (exact arithmetic). \<open>kitoh_uchiyama\<close> and
  \<open>wang_linho\<close> smooth with the same \<open>p_smooth\<close> (lemma \<open>p_smooth_preserves_mean\<close>).
\<close>

theorem smoother_preserves_mean:
  assumes "smooth_data var_in timedim = Inr var_smooth"
    and "get_axis_num (dims var_in) timedim = Some axisno"
  shows "lane axisno (vals var_smooth) i j k = smooth_lane (lane axisno (vals var_in) i j k)
       \<and> (None \<notin> set (lane axisno (vals var_in) i j k) \<longrightarrow>
             nanmean (lane axisno (vals var_smooth) i j k) = nanmean (lane axisno (vals var_in) i j k)
           \<and> nanmean (lane axisno (vals var_in) i j k) \<noteq> None)"
proof -
  from assms have len: "axis_len (vals var_in) axisno \<noteq> 0"
    and out: "var_smooth = var_in\<lparr>vals := p_smooth (vals var_in) axisno\<rparr>"
    by (auto simp: smooth_data_def split: if_splits)
  have v: "vals var_smooth = p_smooth (vals var_in) axisno" by (simp add: out)
  show ?thesis
    unfolding v using p_smooth_preserves_mean[OF len] by (simp add: lane_p_smooth)
qed

lemma smooth_data_impulse_30:
  "smooth_data impulse_30 ''time'' = Inr (impulse_30\<lparr>vals := p_smooth (vals impulse_30) 0\<rparr>)"
  by (simp add: smooth_data_def impulse_30_def get_axis_num_def time_lat_lon_def)

lemma lane0_impulse_30: "lane 0 (vals impulse_30) 0 0 0 = map Some (30 # replicate 29 0)"
  using lane0_row_of_cells[of 0 "[map Some (30 # replicate 29 0)]" 0 0]
  by (simp add: impulse_30_def)

theorem smoother_preserves_mean_witness:
  "smooth_data impulse_30 ''time'' = Inr (impulse_30\<lparr>vals := p_smooth (vals impulse_30) 0\<rparr>)
   \<and> lane 0 (vals impulse_30) 0 0 0 = map Some (30 # replicate 29 0)
   \<and> nanmean (lane 0 (p_smooth (vals impulse_30) 0) 0 0 0) = Some 1"
proof -
  have ax: "get_axis_num (dims impulse_30) ''time'' = Some 0"
    by (simp add: impulse_30_def get_axis_num_def time_lat_lon_def)
  have "sum_list (replicate 29 (0::real)) = 0" by (simp add: sum_list_replicate)
  then have m: "nanmean (map Some (30 # replicate 29 0)) = Some 1"
    using nanmean_map_Some[of "30 # replicate 29 0"] by (simp add: mean_def)
  have n: "None \<notin> set (lane 0 (vals impulse_30) 0 0 0)"
    unfolding lane0_impulse_30 by (rule None_notin_map_Some)
  have v: "vals (impulse_30\<lparr>vals := p_smooth (vals impulse_30) 0\<rparr>) = p_smooth (vals impulse_30) 0"
    by simp
  from smoother_preserves_mean[OF smooth_data_impulse_30 ax, of 0 0 0] n
  have "nanmean (lane 0 (p_smooth (vals impulse_30) 0) 0 0 0)
          = nanmean (lane 0 (vals impulse_30) 0 0 0)"
    unfolding v by blast
  then show ?thesis using smooth_data_impulse_30 lane0_impulse_30 m by simp
qed

text \<open>
  Claim C2 as stated fails for a series with a missing value: the mean of
  \<open>[1, NaN, 3]\<close> over the time axis is 2 (xarray skips the NaN), the smoothed series is
  NaN throughout (the transform spreads the NaN), and its mean is NaN.
\<close>

theorem smoother_missing_value_counterexample:
  "smooth_data gappy ''time'' = Inr (gappy\<lparr>vals := p_smooth (vals gappy) 0\<rparr>)
   \<and> lane 0 (vals gappy) 0 0 0 = [Some 1, None, Some 3]
   \<and> nanmean (lane 0 (vals gappy) 0 0 0) = Some 2
   \<and> lane 0 (p_smooth (vals gappy) 0) 0 0 0 = [None, None, None]
   \<and> nanmean (lane 0 (p_smooth (vals gappy) 0) 0 0 0) = None"
proof -
  have E: "smooth_data gappy ''time'' = Inr (gappy\<lparr>vals := p_smooth (vals gappy) 0\<rparr>)"
    by (simp add: smooth_data_def gappy_def get_axis_num_def time_lat_lon_def)
  have l: "lane 0 (vals gappy) 0 0 0 = [Some 1, None, Some 3]"
    using lane0_row_of_cells[of 0 "[[Some 1, None, Some 3]]" 0 0] by (simp add: gappy_def)
  have m: "nanmean [Some 1, None, Some 3] = Some 2"
    by (simp add: nanmean_def present_def mean_def)
  have s: "smooth_lane [Some 1, None, Some 3] = [None, None, None]"
    using smooth_lane_nan[of "[Some 1, None, Some 3]"] by (simp add: numeral_3_eq_3)
  have n: "nanmean [None, None, None] = None"
    by (simp add: nanmean_def present_def)
  show ?thesis using E by (simp add: lane_p_smooth l m s n)
qed

end
